theory Spec2Isabelle
  imports Main
begin

section \<open>Data model of rows.go\<close>

text \<open>
  Go's \<open>int\<close> is modelled as \<open>int\<close>: no claim depends on 64-bit overflow.
  A cell (\<open>xlsxC\<close>) keeps the fields rows.go reads: \<open>R\<close> (reference), \<open>S\<close> (style),
  \<open>T\<close> (type), \<open>V\<close> (raw value) and \<open>IS\<close> (inline string, a pointer that may be nil;
  the text \<open>IS.String()\<close> returns is stored). Field names carry a prefix because a
  one-letter record field would capture variable names.
\<close>

record xlsxC =
  cR :: string
  cS :: int
  cT :: string
  cV :: string
  cIS :: "string option"

record xlsxRow =
  rR :: int
  rC :: "xlsxC list"
  rHidden :: bool
  rOutlineLevel :: nat

text \<open>
  A worksheet: \<open>SheetData.Row\<close> and \<open>MergeCells\<close> (a pointer: \<open>None\<close> is nil, \<open>Some refs\<close>
  holds the \<open>Ref\<close> of every entry of \<open>MergeCells.Cells\<close>).
\<close>

record xlsxWorksheet =
  Row :: "xlsxRow list"
  MergeCells :: "string list option"

datatype error =
    InvalidRowNumber int
  | InvalidCellName string
  | InvalidCoordinates int int
  | InvalidArea string
  | AtoiSyntax string
  | AtoiRange string
  | IndexOutOfRange

definition emptyC :: "string \<Rightarrow> xlsxC" where
  "emptyC name = \<lparr>cR = name, cS = 0, cT = [], cV = [], cIS = None\<rparr>"

definition emptyRow :: "int \<Rightarrow> xlsxRow" where
  "emptyRow n = \<lparr>rR = n, rC = [], rHidden = False, rOutlineLevel = 0\<rparr>"

section \<open>Row visibility\<close>

text \<open>
  Modelled from the spec: \<open>prepareSheetXML\<close> is not in rows.go. The spec says that
  setting "auto-creates/extends row storage up to and including the target row": the
  missing records are appended, numbered by their position. rows.go always passes
  column 0, for which no cell is created.
\<close>

definition prepareSheetXML :: "xlsxWorksheet \<Rightarrow> int \<Rightarrow> int \<Rightarrow> xlsxWorksheet" where
  "prepareSheetXML xlsx col row =
     xlsx\<lparr>Row := Row xlsx @
        map (\<lambda>i. emptyRow (int i + 1)) [length (Row xlsx) ..< nat row]\<rparr>"

text \<open>
  \<open>SetRowVisible\<close> and \<open>GetRowVisible\<close>; the worksheet is the one \<open>workSheetReader\<close>
  returned. An index outside the slice is Go's run-time panic, \<open>IndexOutOfRange\<close>.
\<close>

definition SetRowVisible :: "xlsxWorksheet \<Rightarrow> int \<Rightarrow> bool \<Rightarrow> error + xlsxWorksheet" where
  "SetRowVisible xlsx0 row visible =
     (if row < 1 then Inl (InvalidRowNumber row)
      else
        let xlsx = prepareSheetXML xlsx0 0 row in
        if nat (row - 1) < length (Row xlsx)
        then Inr (xlsx\<lparr>Row := (Row xlsx)[nat (row - 1) :=
                     (Row xlsx ! nat (row - 1))\<lparr>rHidden := \<not> visible\<rparr>]\<rparr>)
        else Inl IndexOutOfRange)"

definition GetRowVisible :: "xlsxWorksheet \<Rightarrow> int \<Rightarrow> error + bool" where
  "GetRowVisible xlsx row =
     (if row < 1 then Inl (InvalidRowNumber row)
      else if row > int (length (Row xlsx)) then Inr False
      else Inr (\<not> rHidden (Row xlsx ! nat (row - 1))))"

section \<open>Cell coordinates\<close>

text \<open>
  Modelled from the spec: \<open>CellNameToCoordinates\<close> and \<open>CoordinatesToCellName\<close> are not
  in rows.go. The spec calls them a "bidirectional coordinate codec" that "errors on
  malformed input": a cell name is a column in upper-case letters (A = 1, ..., Z = 26,
  AA = 27, ...) followed by a decimal row number of at least 1; a coordinate below 1 has
  no name.
\<close>

definition isUpper :: "char \<Rightarrow> bool" where
  "isUpper c = (65 \<le> (of_char c :: nat) \<and> (of_char c :: nat) \<le> 90)"

definition isDigit :: "char \<Rightarrow> bool" where
  "isDigit c = (48 \<le> (of_char c :: nat) \<and> (of_char c :: nat) \<le> 57)"

fun ColumnNumberToName :: "nat \<Rightarrow> string" where
  "ColumnNumberToName n =
     (if n = 0 then []
      else ColumnNumberToName ((n - 1) div 26) @
           [''ABCDEFGHIJKLMNOPQRSTUVWXYZ'' ! ((n - 1) mod 26)])"

fun Itoa :: "nat \<Rightarrow> string" where
  "Itoa n = (if n < 10 then [''0123456789'' ! n]
             else Itoa (n div 10) @ [''0123456789'' ! (n mod 10)])"

declare ColumnNumberToName.simps [simp del]
declare Itoa.simps [simp del]

definition digitsToNat :: "string \<Rightarrow> nat" where
  "digitsToNat ds = foldl (\<lambda>a c. a * 10 + (of_char c - 48)) 0 ds"

definition ColumnNameToNumber :: "string \<Rightarrow> nat" where
  "ColumnNameToNumber ls = foldl (\<lambda>a c. a * 26 + (of_char c - 64)) 0 ls"

definition CoordinatesToCellName :: "int \<Rightarrow> int \<Rightarrow> error + string" where
  "CoordinatesToCellName col row =
     (if col < 1 \<or> row < 1 then Inl (InvalidCoordinates col row)
      else Inr (ColumnNumberToName (nat col) @ Itoa (nat row)))"

definition CellNameToCoordinates :: "string \<Rightarrow> error + (int \<times> int)" where
  "CellNameToCoordinates cell =
     (let ls = takeWhile isUpper cell; ds = dropWhile isUpper cell in
      if ls = [] \<or> ds = [] \<or> \<not> list_all isDigit ds \<or> digitsToNat ds < 1
      then Inl (InvalidCellName cell)
      else Inr (int (ColumnNameToNumber ls), int (digitsToNat ds)))"

section \<open>checkRow\<close>

text \<open>
  The first inner loop of \<open>checkRow\<close>: one placeholder \<open>xlsxC{R: cellName}\<close> for each
  \<open>colIdx\<close>, named from \<open>colIdx + 1\<close> and \<open>rowIdx + 1\<close>.
\<close>

fun newlist_loop :: "nat list \<Rightarrow> nat \<Rightarrow> error + xlsxC list" where
  "newlist_loop [] rowIdx = Inr []"
| "newlist_loop (colIdx # rest) rowIdx =
     (case CoordinatesToCellName (int colIdx + 1) (int rowIdx + 1) of
        Inl e \<Rightarrow> Inl e
      | Inr cellName \<Rightarrow>
          (case newlist_loop rest rowIdx of
             Inl e \<Rightarrow> Inl e
           | Inr newlist \<Rightarrow> Inr (emptyC cellName # newlist)))"

text \<open>
  The second inner loop: every old cell is stored at index \<open>colNum - 1\<close> of the new
  list. Go panics when that index is outside the list.
\<close>

fun overlay :: "xlsxC list \<Rightarrow> xlsxC list \<Rightarrow> error + xlsxC list" where
  "overlay [] cs = Inr cs"
| "overlay (colData # oldList) cs =
     (case CellNameToCoordinates (cR colData) of
        Inl e \<Rightarrow> Inl e
      | Inr (colNum, r) \<Rightarrow>
          if 1 \<le> colNum \<and> nat (colNum - 1) < length cs
          then overlay oldList (cs[nat (colNum - 1) := colData])
          else Inl IndexOutOfRange)"

definition checkRowData :: "nat \<Rightarrow> xlsxRow \<Rightarrow> error + xlsxRow" where
  "checkRowData rowIdx rowData =
     (if rC rowData = [] then Inr rowData
      else case CellNameToCoordinates (cR (last (rC rowData))) of
        Inl e \<Rightarrow> Inl e
      | Inr (lastCol, r) \<Rightarrow>
          if int (length (rC rowData)) < lastCol
          then (case newlist_loop [0 ..< nat lastCol] rowIdx of
                  Inl e \<Rightarrow> Inl e
                | Inr newlist \<Rightarrow>
                    (case overlay (rC rowData) newlist of
                       Inl e \<Rightarrow> Inl e
                     | Inr cs \<Rightarrow> Inr (rowData\<lparr>rC := cs\<rparr>)))
          else Inr rowData)"

fun checkRow_loop :: "nat \<Rightarrow> xlsxRow list \<Rightarrow> error + xlsxRow list" where
  "checkRow_loop rowIdx [] = Inr []"
| "checkRow_loop rowIdx (rowData # rest) =
     (case checkRowData rowIdx rowData of
        Inl e \<Rightarrow> Inl e
      | Inr rowData' \<Rightarrow>
          (case checkRow_loop (Suc rowIdx) rest of
             Inl e \<Rightarrow> Inl e
           | Inr rest' \<Rightarrow> Inr (rowData' # rest')))"

definition checkRow :: "xlsxWorksheet \<Rightarrow> error + xlsxWorksheet" where
  "checkRow xlsx =
     (case checkRow_loop 0 (Row xlsx) of
        Inl e \<Rightarrow> Inl e
      | Inr rows \<Rightarrow> Inr (xlsx\<lparr>Row := rows\<rparr>))"

text \<open>
  Vocabulary for statements about \<open>checkRow\<close>: the column a cell's reference decodes
  to (0 when it does not decode), and rows all of whose references decode to a column
  between 1 and the column of the row's last cell.
\<close>

definition colOf :: "xlsxC \<Rightarrow> int" where
  "colOf c = (case CellNameToCoordinates (cR c) of Inl e \<Rightarrow> 0 | Inr (n, r) \<Rightarrow> n)"

definition inCols :: "int \<Rightarrow> xlsxC \<Rightarrow> bool" where
  "inCols lastCol c =
     (case CellNameToCoordinates (cR c) of
        Inl e \<Rightarrow> False
      | Inr (n, r) \<Rightarrow> 1 \<le> n \<and> n \<le> lastCol)"

definition cellsOk :: "xlsxRow \<Rightarrow> bool" where
  "cellsOk rowData =
     (rC rowData = [] \<or>
      (case CellNameToCoordinates (cR (last (rC rowData))) of
         Inl e \<Rightarrow> False
       | Inr (lastCol, r) \<Rightarrow> list_all (inCols lastCol) (rC rowData)))"

text \<open>
  The row of the example in the comment above \<open>checkRow\<close>, stored as the 15th record
  (\<open>sheet15\<close>) and as the only record (\<open>sparse15\<close>).
\<close>

definition docRow15 :: xlsxRow where
  "docRow15 =
     \<lparr>rR = 15,
      rC = [\<lparr>cR = ''A15'', cS = 2, cT = [], cV = [], cIS = None\<rparr>,
            \<lparr>cR = ''B15'', cS = 2, cT = [], cV = [], cIS = None\<rparr>,
            \<lparr>cR = ''F15'', cS = 1, cT = [], cV = [], cIS = None\<rparr>,
            \<lparr>cR = ''G15'', cS = 1, cT = [], cV = [], cIS = None\<rparr>],
      rHidden = False, rOutlineLevel = 0\<rparr>"

definition sheet15 :: xlsxWorksheet where
  "sheet15 = \<lparr>Row = map (\<lambda>i. emptyRow (int i + 1)) [0 ..< 14] @ [docRow15],
              MergeCells = None\<rparr>"

definition sparse15 :: xlsxWorksheet where
  "sparse15 = \<lparr>Row = [docRow15], MergeCells = None\<rparr>"

section \<open>Value resolution\<close>

text \<open>
  Go's \<open>strconv.Atoi\<close>: an optional sign and decimal digits. It returns a value together
  with the error: 0 with a syntax error, the nearest 64-bit bound with a range error.
\<close>

definition Atoi :: "string \<Rightarrow> int \<times> error option" where
  "Atoi s =
     (let neg = (s \<noteq> [] \<and> hd s = CHR ''-'');
          ds = (if s \<noteq> [] \<and> (hd s = CHR ''-'' \<or> hd s = CHR ''+'') then tl s else s)
      in if ds = [] \<or> \<not> list_all isDigit ds then (0, Some (AtoiSyntax s))
         else
           let v = (if neg then - int (digitsToNat ds) else int (digitsToNat ds)) in
           if v > 9223372036854775807 then (9223372036854775807, Some (AtoiRange s))
           else if v < - 9223372036854775808 then (- 9223372036854775808, Some (AtoiRange s))
           else (v, None))"

text \<open>
  \<open>getValueFrom\<close>. The formatter \<open>f.formattedValue\<close> is not in rows.go and is the
  parameter \<open>formattedValue\<close>; the shared-string table \<open>d.SI\<close> is the list of the texts
  \<open>d.SI[i].String()\<close> returns. \<open>Inl IndexOutOfRange\<close> is the run-time panic of an index
  outside \<open>d.SI\<close>; the error result of the source is always nil.
\<close>

definition getValueFrom ::
  "(int \<Rightarrow> string \<Rightarrow> string) \<Rightarrow> xlsxC \<Rightarrow> string list \<Rightarrow> error + string" where
  "getValueFrom formattedValue xlsx d =
     (if cT xlsx = ''s'' then
        (if cV xlsx \<noteq> [] \<and> int (length d) > fst (Atoi (cV xlsx))
         then (if 0 \<le> fst (Atoi (cV xlsx))
               then Inr (formattedValue (cS xlsx) (d ! nat (fst (Atoi (cV xlsx)))))
               else Inl IndexOutOfRange)
         else Inr (formattedValue (cS xlsx) (cV xlsx)))
      else if cT xlsx = ''str'' then Inr (formattedValue (cS xlsx) (cV xlsx))
      else if cT xlsx = ''inlineStr'' then
        (case cIS xlsx of
           Some is \<Rightarrow> Inr (formattedValue (cS xlsx) is)
         | None \<Rightarrow> Inr (formattedValue (cS xlsx) (cV xlsx)))
      else Inr (formattedValue (cS xlsx) (cV xlsx)))"

section \<open>The streaming row reader\<close>

text \<open>
  The tokens of \<open>encoding/xml\<close> that rows.go looks at. \<open>StartElement name attrs\<close> and
  \<open>EndElement name\<close> carry the local name and the attributes as pairs of local name and
  value. \<open>CellElement c\<close> is the start tag of a \<open>c\<close> element together with everything up
  to its end tag: \<open>Columns\<close> consumes all of it with \<open>DecodeElement\<close>, which yields the
  cell \<open>c\<close>, and the pre-scan of \<open>Rows\<close> finds no \<open>row\<close> element inside a cell.
  \<open>OtherToken\<close> is any other token (character data, comments).
\<close>

datatype token =
    StartElement string "(string \<times> string) list"
  | EndElement string
  | CellElement xlsxC
  | OtherToken

record Rows =
  err :: "error option"
  curRow :: int
  totalRow :: int
  stashRow :: int
  decoder :: "token list"

text \<open>
  The attribute loop of the pre-scan in \<open>Rows\<close>: every attribute \<open>r\<close> is parsed into
  the variable \<open>row\<close>, and a parse error is returned.
\<close>

fun Rows_attrs :: "(string \<times> string) list \<Rightarrow> int \<Rightarrow> error + int" where
  "Rows_attrs [] row = Inr row"
| "Rows_attrs ((name, val) # attrs) row =
     (if name = ''r'' then
        (case Atoi val of
           (n, Some e) \<Rightarrow> Inl e
         | (n, None) \<Rightarrow> Rows_attrs attrs n)
      else Rows_attrs attrs row)"

text \<open>The token loop of the pre-scan, with the variables \<open>row\<close> and \<open>rows.totalRow\<close>.\<close>

fun Rows_scan :: "token list \<Rightarrow> int \<Rightarrow> int \<Rightarrow> error + int" where
  "Rows_scan [] row tot = Inr tot"
| "Rows_scan (StartElement name attrs # tokens) row tot =
     (if name = ''row'' then
        (case Rows_attrs attrs row of
           Inl e \<Rightarrow> Inl e
         | Inr row' \<Rightarrow> Rows_scan tokens row' row')
      else Rows_scan tokens row tot)"
| "Rows_scan (t # tokens) row tot = Rows_scan tokens row tot"

text \<open>
  \<open>Rows\<close>, given the tokens of the worksheet's XML (the sheet exists and has been
  flushed): the pre-scan, then a second decoder over the same bytes.
\<close>

definition Rows_open :: "token list \<Rightarrow> error + Rows" where
  "Rows_open tokens =
     (case Rows_scan tokens 0 0 of
        Inl e \<Rightarrow> Inl e
      | Inr tot \<Rightarrow>
          Inr \<lparr>err = None, curRow = 0, totalRow = tot, stashRow = 0, decoder = tokens\<rparr>)"

definition Next :: "Rows \<Rightarrow> bool \<times> Rows" where
  "Next rows = (curRow rows + 1 \<le> totalRow rows, rows\<lparr>curRow := curRow rows + 1\<rparr>)"

text \<open>
  The attribute loop of \<open>Columns\<close> on a \<open>row\<close> start tag: a parse error is returned, a
  row number above the cursor is stashed (minus one) and returned, anything else goes
  on.
\<close>

datatype attrs_result = GoOn | ReturnErr error | ReturnStash int

fun Columns_attrs :: "(string \<times> string) list \<Rightarrow> int \<Rightarrow> attrs_result" where
  "Columns_attrs [] cur = GoOn"
| "Columns_attrs ((name, val) # attrs) cur =
     (if name = ''r'' then
        (case Atoi val of
           (n, Some e) \<Rightarrow> ReturnErr e
         | (n, None) \<Rightarrow> if n > cur then ReturnStash (n - 1) else Columns_attrs attrs cur)
      else Columns_attrs attrs cur)"

text \<open>
  The token loop of \<open>Columns\<close>. The result is \<open>Inl\<close> for a run-time panic inside
  \<open>getValueFrom\<close>, and otherwise the returned columns, the returned error, the stash row
  and the tokens the decoder has left.
\<close>

fun Columns_loop ::
  "(int \<Rightarrow> string \<Rightarrow> string) \<Rightarrow> string list \<Rightarrow> int \<Rightarrow> int \<Rightarrow> token list \<Rightarrow> string list \<Rightarrow>
   error + (string list \<times> error option \<times> int \<times> token list)" where
  "Columns_loop fv d cur stash [] columns = Inr (columns, None, stash, [])"
| "Columns_loop fv d cur stash (StartElement name attrs # tokens) columns =
     (if name = ''row'' then
        (case Columns_attrs attrs cur of
           ReturnErr e \<Rightarrow> Inr (columns, Some e, stash, tokens)
         | ReturnStash n \<Rightarrow> Inr (columns, None, n, tokens)
         | GoOn \<Rightarrow> Columns_loop fv d cur stash tokens columns)
      else Columns_loop fv d cur stash tokens columns)"
| "Columns_loop fv d cur stash (CellElement colCell # tokens) columns =
     (case CellNameToCoordinates (cR colCell) of
        Inl e \<Rightarrow> Inr (columns, Some e, stash, tokens)
      | Inr (cellCol, r) \<Rightarrow>
          (case getValueFrom fv colCell d of
             Inl e \<Rightarrow> Inl e
           | Inr val \<Rightarrow>
               Columns_loop fv d cur stash tokens
                 (columns @ replicate (nat (cellCol - int (length columns) - 1)) [] @ [val])))"
| "Columns_loop fv d cur stash (EndElement name # tokens) columns =
     (if name = ''row'' then Inr (columns, None, stash, tokens)
      else Columns_loop fv d cur stash tokens columns)"
| "Columns_loop fv d cur stash (OtherToken # tokens) columns =
     Columns_loop fv d cur stash tokens columns"

definition Columns ::
  "(int \<Rightarrow> string \<Rightarrow> string) \<Rightarrow> string list \<Rightarrow> Rows \<Rightarrow>
   error + (string list \<times> error option \<times> Rows)" where
  "Columns fv d rows =
     (if stashRow rows \<ge> curRow rows then Inr ([], None, rows)
      else case Columns_loop fv d (curRow rows) (stashRow rows) (decoder rows) [] of
        Inl e \<Rightarrow> Inl e
      | Inr (columns, e, stash, tokens) \<Rightarrow>
          Inr (columns, e, rows\<lparr>stashRow := stash, decoder := tokens\<rparr>))"

text \<open>
  The loop of \<open>GetRows\<close>: it stops when \<open>Next\<close> is false, when the iterator carries an
  error, and when \<open>Columns\<close> returns one; a panic goes through.
\<close>

function GetRows_loop ::
  "(int \<Rightarrow> string \<Rightarrow> string) \<Rightarrow> string list \<Rightarrow> Rows \<Rightarrow> string list list \<Rightarrow>
   error + string list list" where
  "GetRows_loop fv d rows results =
     (case Next rows of
        (ok, rows1) \<Rightarrow>
          if ok then
            (if err rows1 \<noteq> None then Inr results
             else case Columns fv d rows1 of
               Inl e \<Rightarrow> Inl e
             | Inr (row, e, rows2) \<Rightarrow>
                 (case e of
                    Some e' \<Rightarrow> Inr results
                  | None \<Rightarrow> GetRows_loop fv d rows2 (results @ [row])))
          else Inr results)"
  by pat_completeness auto
termination
  by (relation "measure (\<lambda>(fv, d, rows, results). nat (totalRow rows - curRow rows))")
     (auto simp: Next_def Columns_def split: if_splits sum.splits prod.splits)

declare GetRows_loop.simps [simp del]

definition GetRows ::
  "(int \<Rightarrow> string \<Rightarrow> string) \<Rightarrow> string list \<Rightarrow> token list \<Rightarrow> error + string list list" where
  "GetRows fv d tokens =
     (case Rows_open tokens of
        Inl e \<Rightarrow> Inl e
      | Inr rows \<Rightarrow> GetRows_loop fv d rows [])"

text \<open>
  Vocabulary for statements about the pre-scan: the row numbers the \<open>row\<close> start tags
  of a token list declare, in document order (for each tag the value of its last \<open>r\<close>
  attribute), and token lists in which every \<open>row\<close> start tag has an \<open>r\<close> attribute and
  all its \<open>r\<close> attributes parse.
\<close>

definition isR :: "string \<times> string \<Rightarrow> bool" where
  "isR a = (fst a = ''r'')"

fun declaredRows :: "token list \<Rightarrow> int list" where
  "declaredRows [] = []"
| "declaredRows (StartElement name attrs # tokens) =
     (if name = ''row'' \<and> filter isR attrs \<noteq> []
      then fst (Atoi (snd (last (filter isR attrs)))) # declaredRows tokens
      else declaredRows tokens)"
| "declaredRows (t # tokens) = declaredRows tokens"

fun rowsNumbered :: "token list \<Rightarrow> bool" where
  "rowsNumbered [] = True"
| "rowsNumbered (StartElement name attrs # tokens) =
     ((name = ''row'' \<longrightarrow>
         filter isR attrs \<noteq> [] \<and> list_all (\<lambda>a. snd (Atoi (snd a)) = None) (filter isR attrs))
      \<and> rowsNumbered tokens)"
| "rowsNumbered (t # tokens) = rowsNumbered tokens"

definition toks31 :: "token list" where
  "toks31 = [StartElement ''row'' [(''r'', ''3'')], EndElement ''row'',
             StartElement ''row'' [(''r'', ''1'')], EndElement ''row'']"

text \<open>A worksheet that declares rows 1, 3 and 5 only.\<close>

definition toks135 :: "token list" where
  "toks135 =
     [StartElement ''worksheet'' [], StartElement ''sheetData'' [],
      StartElement ''row'' [(''r'', ''1''), (''spans'', ''1:3'')],
      CellElement \<lparr>cR = ''A1'', cS = 0, cT = [], cV = ''10'', cIS = None\<rparr>,
      CellElement \<lparr>cR = ''C1'', cS = 0, cT = ''s'', cV = ''0'', cIS = None\<rparr>,
      EndElement ''row'',
      StartElement ''row'' [(''r'', ''3'')],
      CellElement \<lparr>cR = ''B3'', cS = 0, cT = ''str'', cV = ''x'', cIS = None\<rparr>,
      EndElement ''row'',
      StartElement ''row'' [(''r'', ''5'')],
      CellElement \<lparr>cR = ''A5'', cS = 0, cT = ''inlineStr'', cV = [], cIS = Some ''y''\<rparr>,
      EndElement ''row'',
      EndElement ''sheetData'', EndElement ''worksheet'']"

text \<open>
  Vocabulary for statements about \<open>GetRows\<close>. \<open>denseValues\<close> follows the spec's words
  for the value list of a declared row: for each cell, "compute its column number from
  its reference, left-pad the result sequence with empty strings for any skipped
  columns, resolve its display value" and append; it is \<open>None\<close> when a reference does
  not parse or value resolution panics. \<open>noRowTokens\<close> holds of tokens outside rows:
  no \<open>row\<close> tag and no cell; \<open>noR\<close> of attributes other than \<open>r\<close>.
\<close>

fun denseValues ::
  "(int \<Rightarrow> string \<Rightarrow> string) \<Rightarrow> string list \<Rightarrow> xlsxC list \<Rightarrow> string list \<Rightarrow>
   string list option" where
  "denseValues fv d [] acc = Some acc"
| "denseValues fv d (c # cs) acc =
     (case CellNameToCoordinates (cR c) of
        Inl e \<Rightarrow> None
      | Inr (col, r) \<Rightarrow>
          (case getValueFrom fv c d of
             Inl e \<Rightarrow> None
           | Inr val \<Rightarrow>
               denseValues fv d cs
                 (acc @ replicate (nat (col - int (length acc) - 1)) [] @ [val])))"

fun outsideRow :: "token \<Rightarrow> bool" where
  "outsideRow (StartElement name attrs) = (name \<noteq> ''row'')"
| "outsideRow (EndElement name) = (name \<noteq> ''row'')"
| "outsideRow (CellElement c) = False"
| "outsideRow OtherToken = True"

definition noRowTokens :: "token list \<Rightarrow> bool" where
  "noRowTokens ts = list_all outsideRow ts"

definition noR :: "(string \<times> string) list \<Rightarrow> bool" where
  "noR attrs = list_all (\<lambda>a. fst a \<noteq> ''r'') attrs"

section \<open>The structural editor\<close>

text \<open>
  Modelled from the spec: \<open>ajustSingleRowDimensions\<close> is not in rows.go. The spec says
  the copy has "every copied cell's reference" renumbered to the new row: the row
  record takes the number, and each cell keeps its column under the new row number (a
  reference that does not parse becomes empty).
\<close>

definition ajustSingleRowDimensions :: "xlsxRow \<Rightarrow> int \<Rightarrow> xlsxRow" where
  "ajustSingleRowDimensions r num =
     r\<lparr>rR := num,
       rC := map (\<lambda>c. c\<lparr>cR :=
                (case CellNameToCoordinates (cR c) of
                   Inl e \<Rightarrow> []
                 | Inr (col, old) \<Rightarrow>
                     (case CoordinatesToCellName col num of
                        Inl e \<Rightarrow> []
                      | Inr name \<Rightarrow> name))\<rparr>) (rC r)\<rparr>"

text \<open>
  Modelled from the spec: \<open>areaRefToCoordinates\<close> is not in rows.go. The spec gives
  \<open>AreaRefToCoordinates(ref) -> [x1,y1,x2,y2]\<close> for a reference such as \<open>A1:B2\<close>: the two
  cell names around the colon, decoded.
\<close>

definition areaRefToCoordinates :: "string \<Rightarrow> error + (int \<times> int \<times> int \<times> int)" where
  "areaRefToCoordinates ref =
     (let a = takeWhile (\<lambda>c. c \<noteq> CHR '':'') ref;
          rest = dropWhile (\<lambda>c. c \<noteq> CHR '':'') ref
      in if rest = [] then Inl (InvalidArea ref)
         else case CellNameToCoordinates a of
           Inl e \<Rightarrow> Inl e
         | Inr (x1, y1) \<Rightarrow>
             (case CellNameToCoordinates (tl rest) of
                Inl e \<Rightarrow> Inl e
              | Inr (x2, y2) \<Rightarrow> Inr (x1, y1, x2, y2)))"

text \<open>
  Modelled from the spec: \<open>MergeCell\<close> is not in rows.go. The spec says
  \<open>MergeCells(sheet, fromRef, toRef) -> error\<close> "creates a merged region": the region
  \<open>from:to\<close> is added at the end of \<open>MergeCells.Cells\<close>, and an empty cell name is an
  error. It acts on the worksheet \<open>duplicateMergeCells\<close> holds, whose list of regions is
  the state here.
\<close>

definition MergeCell :: "string list \<Rightarrow> string \<Rightarrow> string \<Rightarrow> error + string list" where
  "MergeCell cells hcell vcell =
     (if hcell = [] then Inl (InvalidCellName hcell)
      else if vcell = [] then Inl (InvalidCellName vcell)
      else Inr (cells @ [hcell @ '':'' @ vcell]))"

text \<open>
  Modelled from the spec: \<open>adjustHelper\<close> is not in rows.go. The spec has
  \<open>ShiftReferences(sheet, kind=rows, pivot, delta)\<close>, which "adjusts all structural
  references by delta at pivot": every row record numbered \<open>pivot\<close> or more takes its
  number plus \<open>delta\<close> (when that is positive), its cells with it, and every merged
  region's row coordinates from \<open>pivot\<close> on move by \<open>delta\<close>. For
  \<open>DuplicateRowTo\<close> the spec says the shift by +1 is "making room" and leaves a "newly
  vacated" slot at the pivot, which the copy overwrites: a shift by a positive
  \<open>delta\<close> leaves an empty record numbered \<open>pivot\<close>, in row order, when the store
  reaches that row (a record numbered \<open>pivot\<close> or more is stored, or at least
  \<open>pivot\<close> records are; rows.go takes the number of records for the row count).
  rows.go shifts by +1 and -1 only. The functions of rows.go below take the shift as
  the parameter \<open>adj\<close>; this definition is the instance used in the examples.
\<close>

definition shiftRow :: "int \<Rightarrow> int \<Rightarrow> xlsxRow \<Rightarrow> xlsxRow" where
  "shiftRow num offset r =
     (if rR r \<ge> num \<and> rR r + offset > 0
      then ajustSingleRowDimensions r (rR r + offset) else r)"

definition shiftRef :: "int \<Rightarrow> int \<Rightarrow> string \<Rightarrow> string" where
  "shiftRef num offset ref =
     (case areaRefToCoordinates ref of
        Inl e \<Rightarrow> ref
      | Inr (x1, y1, x2, y2) \<Rightarrow>
          (case (CoordinatesToCellName x1 (if y1 \<ge> num then y1 + offset else y1),
                 CoordinatesToCellName x2 (if y2 \<ge> num then y2 + offset else y2)) of
             (Inr a, Inr b) \<Rightarrow> a @ '':'' @ b
           | other \<Rightarrow> ref))"

fun makeRoom :: "int \<Rightarrow> xlsxRow list \<Rightarrow> xlsxRow list" where
  "makeRoom num [] = [emptyRow num]"
| "makeRoom num (r # rs) =
     (if rR r > num then emptyRow num # r # rs else r # makeRoom num rs)"

definition reachesRow :: "xlsxRow list \<Rightarrow> int \<Rightarrow> bool" where
  "reachesRow rs num = (list_ex (\<lambda>r. rR r \<ge> num) rs \<or> int (length rs) \<ge> num)"

definition adjustHelper :: "xlsxWorksheet \<Rightarrow> int \<Rightarrow> int \<Rightarrow> error + xlsxWorksheet" where
  "adjustHelper xlsx num offset =
     Inr (xlsx\<lparr>Row := (if offset > 0 \<and> reachesRow (Row xlsx) num
                        then makeRoom num (map (shiftRow num offset) (Row xlsx))
                        else map (shiftRow num offset) (Row xlsx)),
               MergeCells := map_option (map (shiftRef num offset)) (MergeCells xlsx)\<rparr>)"

text \<open>
  The index of the first row record with a given number: the \<open>for ... range\<close> loops of
  \<open>RemoveRow\<close> and \<open>DuplicateRowTo\<close> that stop at the first \<open>R == row\<close>.
\<close>

fun indexOfRow :: "xlsxRow list \<Rightarrow> int \<Rightarrow> nat option" where
  "indexOfRow [] row = None"
| "indexOfRow (r # rs) row =
     (if rR r = row then Some 0 else map_option Suc (indexOfRow rs row))"

definition RemoveRow ::
  "(xlsxWorksheet \<Rightarrow> int \<Rightarrow> int \<Rightarrow> error + xlsxWorksheet) \<Rightarrow>
   xlsxWorksheet \<Rightarrow> int \<Rightarrow> error + xlsxWorksheet" where
  "RemoveRow adj xlsx row =
     (if row < 1 then Inl (InvalidRowNumber row)
      else if row > int (length (Row xlsx)) then adj xlsx row (- 1)
      else case indexOfRow (Row xlsx) row of
        Some rowIdx \<Rightarrow>
          adj (xlsx\<lparr>Row := take rowIdx (Row xlsx) @ drop (rowIdx + 1) (Row xlsx)\<rparr>) row (- 1)
      | None \<Rightarrow> Inr xlsx)"

text \<open>
  The first loop of \<open>duplicateMergeCells\<close>: an error for a region that does not parse,
  and \<open>True\<close> as soon as a region has \<open>row2\<close> strictly inside its rows.
\<close>

fun straddles :: "string list \<Rightarrow> int \<Rightarrow> error + bool" where
  "straddles [] row2 = Inr False"
| "straddles (ref # cells) row2 =
     (case areaRefToCoordinates ref of
        Inl e \<Rightarrow> Inl e
      | Inr (x1, y1, x2, y2) \<Rightarrow>
          if y1 < row2 \<and> row2 < y2 then Inr True else straddles cells row2)"

text \<open>
  The second loop, over the index \<open>i\<close> and the list of regions, which \<open>MergeCell\<close>
  extends while the loop runs. The error of \<open>areaRefToCoordinates\<close> is dropped there and
  the coordinates are then nil, so that reading them panics. The names of the new
  region are empty when \<open>CoordinatesToCellName\<close> fails.
\<close>

definition nameOrEmpty :: "error + string \<Rightarrow> string" where
  "nameOrEmpty r = (case r of Inl e \<Rightarrow> [] | Inr name \<Rightarrow> name)"

function dmc_loop :: "string list \<Rightarrow> int \<Rightarrow> int \<Rightarrow> nat \<Rightarrow> error + string list" where
  "dmc_loop cells row row2 i =
     (if i < length cells then
        (case areaRefToCoordinates (cells ! i) of
           Inl e \<Rightarrow> Inl IndexOutOfRange
         | Inr (x1, y1, x2, y2) \<Rightarrow>
             if y1 = y2 \<and> y1 = row then
               (case MergeCell cells (nameOrEmpty (CoordinatesToCellName x1 row2))
                                     (nameOrEmpty (CoordinatesToCellName x2 row2)) of
                  Inl e \<Rightarrow> Inl e
                | Inr cells' \<Rightarrow> dmc_loop cells' row row2 (i + 1 + 1))
             else dmc_loop cells row row2 (i + 1))
      else Inr cells)"
  by pat_completeness auto
termination
  by (relation "measure (\<lambda>(cells, row, row2, i). length cells - i)")
     (auto simp: MergeCell_def split: if_splits)

declare dmc_loop.simps [simp del]

definition duplicateMergeCells :: "xlsxWorksheet \<Rightarrow> int \<Rightarrow> int \<Rightarrow> error + xlsxWorksheet" where
  "duplicateMergeCells xlsx row row2 =
     (case MergeCells xlsx of
        None \<Rightarrow> Inr xlsx
      | Some cells \<Rightarrow>
          (case straddles cells row2 of
             Inl e \<Rightarrow> Inl e
           | Inr True \<Rightarrow> Inr xlsx
           | Inr False \<Rightarrow>
               (case dmc_loop cells (if row > row2 then row + 1 else row) row2 0 of
                  Inl e \<Rightarrow> Inl e
                | Inr cells' \<Rightarrow> Inr (xlsx\<lparr>MergeCells := Some cells'\<rparr>))))"

text \<open>
  \<open>DuplicateRowTo\<close>. \<open>rowCopy\<close> is taken before the shift. Its cells share their
  storage with the sheet until they are copied after the shift; the model copies the
  cells as they were before the shift, which gives the same renumbered cells as long as
  the shift changes nothing but the row number inside the references of those cells.
\<close>

definition DuplicateRowTo ::
  "(xlsxWorksheet \<Rightarrow> int \<Rightarrow> int \<Rightarrow> error + xlsxWorksheet) \<Rightarrow>
   xlsxWorksheet \<Rightarrow> int \<Rightarrow> int \<Rightarrow> error + xlsxWorksheet" where
  "DuplicateRowTo adj xlsx row row2 =
     (if row < 1 then Inl (InvalidRowNumber row)
      else if row > int (length (Row xlsx)) \<or> row2 < 1 \<or> row = row2 then Inr xlsx
      else case indexOfRow (Row xlsx) row of
        None \<Rightarrow> Inr xlsx
      | Some i \<Rightarrow>
          (case adj xlsx row2 1 of
             Inl e \<Rightarrow> Inl e
           | Inr xlsx1 \<Rightarrow>
               (case indexOfRow (Row xlsx1) row2 of
                  None \<Rightarrow>
                    if int (length (Row xlsx1)) \<ge> row2 then Inr xlsx1
                    else duplicateMergeCells
                           (xlsx1\<lparr>Row := Row xlsx1 @
                              [ajustSingleRowDimensions (Row xlsx ! i) row2]\<rparr>) row row2
                | Some idx2 \<Rightarrow>
                    duplicateMergeCells
                      (xlsx1\<lparr>Row := (Row xlsx1)[idx2 :=
                         ajustSingleRowDimensions (Row xlsx ! i) row2]\<rparr>) row row2)))"

text \<open>A worksheet of five rows, each stored at the position of its number.\<close>

definition row5 :: "int \<Rightarrow> string \<Rightarrow> string \<Rightarrow> xlsxRow" where
  "row5 n ref v =
     \<lparr>rR = n, rC = [\<lparr>cR = ref, cS = 0, cT = [], cV = v, cIS = None\<rparr>],
      rHidden = False, rOutlineLevel = 0\<rparr>"

definition sheet5 :: xlsxWorksheet where
  "sheet5 =
     \<lparr>Row = [row5 1 ''A1'' ''a'', row5 2 ''A2'' ''b'', row5 3 ''A3'' ''c'',
             row5 4 ''B4'' ''d'', row5 5 ''C5'' ''e''],
      MergeCells = None\<rparr>"

text \<open>
  Vocabulary for statements about the merge repair: a region that parses and is a
  single-row region on a given row (\<open>onRow\<close>), one that parses and is not (\<open>offRow\<close>),
  and the region with the same columns on row \<open>row2\<close> (\<open>dupRef\<close>).
\<close>

definition onRow :: "int \<Rightarrow> string \<Rightarrow> bool" where
  "onRow row ref =
     (case areaRefToCoordinates ref of
        Inl e \<Rightarrow> False
      | Inr (x1, y1, x2, y2) \<Rightarrow> y1 = y2 \<and> y1 = row)"

definition offRow :: "int \<Rightarrow> string \<Rightarrow> bool" where
  "offRow row ref =
     (case areaRefToCoordinates ref of
        Inl e \<Rightarrow> False
      | Inr (x1, y1, x2, y2) \<Rightarrow> \<not> (y1 = y2 \<and> y1 = row))"

definition dupRef :: "int \<Rightarrow> string \<Rightarrow> string" where
  "dupRef row2 ref =
     (case areaRefToCoordinates ref of
        Inl e \<Rightarrow> []
      | Inr (x1, y1, x2, y2) \<Rightarrow>
          nameOrEmpty (CoordinatesToCellName x1 row2) @ '':'' @
          nameOrEmpty (CoordinatesToCellName x2 row2))"

text \<open>
  A worksheet of two rows with cells A2 and C2 on row 2, and a given list of merged
  regions.
\<close>

definition sheet2 :: "string list \<Rightarrow> xlsxWorksheet" where
  "sheet2 merges =
     \<lparr>Row = [row5 1 ''A1'' ''a'',
             \<lparr>rR = 2,
              rC = [\<lparr>cR = ''A2'', cS = 1, cT = [], cV = ''b'', cIS = None\<rparr>,
                    \<lparr>cR = ''C2'', cS = 2, cT = [], cV = ''d'', cIS = None\<rparr>],
              rHidden = False, rOutlineLevel = 0\<rparr>],
      MergeCells = Some merges\<rparr>"

definition row7copy :: xlsxRow where
  "row7copy =
     \<lparr>rR = 7,
      rC = [\<lparr>cR = ''A7'', cS = 1, cT = [], cV = ''b'', cIS = None\<rparr>,
            \<lparr>cR = ''C7'', cS = 2, cT = [], cV = ''d'', cIS = None\<rparr>],
      rHidden = False, rOutlineLevel = 0\<rparr>"

text \<open>
  The tokens between the start and the end tag of a row: cells, and tokens that are no
  \<open>row\<close> tag (\<open>insideRow\<close>); \<open>cellsOf\<close> gives the cells among them, in order.
\<close>

fun insideRow :: "token \<Rightarrow> bool" where
  "insideRow (StartElement name attrs) = (name \<noteq> ''row'')"
| "insideRow (EndElement name) = (name \<noteq> ''row'')"
| "insideRow (CellElement c) = True"
| "insideRow OtherToken = True"

fun cellsOf :: "token list \<Rightarrow> xlsxC list" where
  "cellsOf [] = []"
| "cellsOf (CellElement c # ts) = c # cellsOf ts"
| "cellsOf (t # ts) = cellsOf ts"

text \<open>
  Two more worksheets that declare rows 1, 3 and 5 only: one declares them in the
  document order 5, 3, 1; the other in the order 1, 3, 5 with a cell of row 3 whose
  reference does not parse.
\<close>

definition toks531 :: "token list" where
  "toks531 =
     [StartElement ''row'' [(''r'', ''5'')],
      CellElement \<lparr>cR = ''A5'', cS = 0, cT = [], cV = ''five'', cIS = None\<rparr>,
      EndElement ''row'',
      StartElement ''row'' [(''r'', ''3'')],
      CellElement \<lparr>cR = ''A3'', cS = 0, cT = [], cV = ''three'', cIS = None\<rparr>,
      EndElement ''row'',
      StartElement ''row'' [(''r'', ''1'')],
      CellElement \<lparr>cR = ''A1'', cS = 0, cT = [], cV = ''one'', cIS = None\<rparr>,
      EndElement ''row'']"

definition toksBadRef :: "token list" where
  "toksBadRef =
     [StartElement ''row'' [(''r'', ''1'')],
      CellElement \<lparr>cR = ''A1'', cS = 0, cT = [], cV = ''one'', cIS = None\<rparr>,
      EndElement ''row'',
      StartElement ''row'' [(''r'', ''3'')],
      CellElement \<lparr>cR = ''3A'', cS = 0, cT = [], cV = ''three'', cIS = None\<rparr>,
      EndElement ''row'',
      StartElement ''row'' [(''r'', ''5'')],
      CellElement \<lparr>cR = ''A5'', cS = 0, cT = [], cV = ''five'', cIS = None\<rparr>,
      EndElement ''row'']"

text \<open>
  The regions the merge repair adds, read off the list in order: an entry that is a
  single-row region on the row gets its duplicate at \<open>row2\<close> and the entry after it is
  passed over; any other entry is passed.
\<close>

fun duplicates :: "int \<Rightarrow> int \<Rightarrow> string list \<Rightarrow> string list" where
  "duplicates row row2 [] = []"
| "duplicates row row2 [a] = (if onRow row a then [dupRef row2 a] else [])"
| "duplicates row row2 (a # b # rest) =
     (if onRow row a then dupRef row2 a # duplicates row row2 rest
      else duplicates row row2 (b # rest))"

section \<open>Row storage\<close>

text \<open>
  \<open>DuplicateRowTo\<close> once more, with the storage of the cell slices explicit, for what
  the code shares and what it copies. A row record holds its scalar fields and the
  address of the backing array of its cell slice \<open>C\<close> (\<open>None\<close> for a nil slice); the
  store maps an address to the cells the array holds, and every address from
  \<open>allocated\<close> on is unused. Copying a row record (\<open>rowCopy = xlsx.SheetData.Row[i]\<close>)
  copies the address, so both records share the array;
  \<open>append(make([]xlsxC, 0, n), rowCopy.C...)\<close> fills a new array; writing
  \<open>r.C[i].R\<close> changes the array in place.
\<close>

record rowS =
  sR :: int
  sC :: "nat option"
  sHidden :: bool
  sOutlineLevel :: nat

record sheetS =
  rowsS :: "rowS list"
  arrays :: "nat \<Rightarrow> xlsxC list"
  allocated :: nat
  mergesS :: "string list option"

definition cellsS :: "(nat \<Rightarrow> xlsxC list) \<Rightarrow> rowS \<Rightarrow> xlsxC list" where
  "cellsS h r = (case sC r of None \<Rightarrow> [] | Some q \<Rightarrow> h q)"

text \<open>
  Modelled from the spec: \<open>ajustSingleRowDimensions\<close> on the store. It is the function
  modelled above, writing in place: \<open>renumberC\<close> is what it does to one cell.
\<close>

definition renumberC :: "int \<Rightarrow> xlsxC \<Rightarrow> xlsxC" where
  "renumberC num c =
     c\<lparr>cR := (case CellNameToCoordinates (cR c) of
                 Inl e \<Rightarrow> []
               | Inr (col, old) \<Rightarrow>
                   (case CoordinatesToCellName col num of
                      Inl e \<Rightarrow> []
                    | Inr name \<Rightarrow> name))\<rparr>"

definition ajustSingleRowDimensionsS ::
  "(nat \<Rightarrow> xlsxC list) \<Rightarrow> rowS \<Rightarrow> int \<Rightarrow> (nat \<Rightarrow> xlsxC list) \<times> rowS" where
  "ajustSingleRowDimensionsS h r num =
     ((case sC r of None \<Rightarrow> h | Some q \<Rightarrow> h(q := map (renumberC num) (h q))),
      r\<lparr>sR := num\<rparr>)"

text \<open>
  Modelled from the spec: \<open>adjustHelper\<close> on the store, as above: the records from
  the pivot on are renumbered one after the other, each in place, then the vacated slot
  is left as an empty record with a nil cell slice, and the merged regions move.
\<close>

fun shiftRowsS ::
  "int \<Rightarrow> int \<Rightarrow> rowS list \<Rightarrow> (nat \<Rightarrow> xlsxC list) \<Rightarrow> rowS list \<times> (nat \<Rightarrow> xlsxC list)" where
  "shiftRowsS num offset [] h = ([], h)"
| "shiftRowsS num offset (r # rs) h =
     (if sR r \<ge> num \<and> sR r + offset > 0 then
        (case ajustSingleRowDimensionsS h r (sR r + offset) of
           (h1, r1) \<Rightarrow>
             (case shiftRowsS num offset rs h1 of (rs', h2) \<Rightarrow> (r1 # rs', h2)))
      else (case shiftRowsS num offset rs h of (rs', h2) \<Rightarrow> (r # rs', h2)))"

definition emptyRowS :: "int \<Rightarrow> rowS" where
  "emptyRowS n = \<lparr>sR = n, sC = None, sHidden = False, sOutlineLevel = 0\<rparr>"

fun makeRoomS :: "int \<Rightarrow> rowS list \<Rightarrow> rowS list" where
  "makeRoomS num [] = [emptyRowS num]"
| "makeRoomS num (r # rs) =
     (if sR r > num then emptyRowS num # r # rs else r # makeRoomS num rs)"

definition reachesRowS :: "rowS list \<Rightarrow> int \<Rightarrow> bool" where
  "reachesRowS rs num = (list_ex (\<lambda>r. sR r \<ge> num) rs \<or> int (length rs) \<ge> num)"

definition adjustHelperS :: "sheetS \<Rightarrow> int \<Rightarrow> int \<Rightarrow> error + sheetS" where
  "adjustHelperS st num offset =
     (case shiftRowsS num offset (rowsS st) (arrays st) of
        (rs, h) \<Rightarrow>
          Inr (st\<lparr>rowsS := (if offset > 0 \<and> reachesRowS (rowsS st) num
                              then makeRoomS num rs else rs),
                  arrays := h,
                  mergesS := map_option (map (shiftRef num offset)) (mergesS st)\<rparr>))"

fun indexOfRowS :: "rowS list \<Rightarrow> int \<Rightarrow> nat option" where
  "indexOfRowS [] row = None"
| "indexOfRowS (r # rs) row =
     (if sR r = row then Some 0 else map_option Suc (indexOfRowS rs row))"

text \<open>
  \<open>duplicateMergeCells\<close> reads and writes the merged regions only; on the store it is
  the function above applied to them.
\<close>

definition duplicateMergeCellsS :: "sheetS \<Rightarrow> int \<Rightarrow> int \<Rightarrow> error + sheetS" where
  "duplicateMergeCellsS st row row2 =
     (case duplicateMergeCells \<lparr>Row = [], MergeCells = mergesS st\<rparr> row row2 of
        Inl e \<Rightarrow> Inl e
      | Inr xlsx \<Rightarrow> Inr (st\<lparr>mergesS := MergeCells xlsx\<rparr>))"

text \<open>
  \<open>DuplicateRowTo\<close> on the store. \<open>rowCopy\<close> is taken before the shift and shares the
  source's array, which the shift may renumber in place; after the shift the cells the
  array then holds are copied into a new array at the first unused address, the copy is
  renumbered in place there, and the record is stored at \<open>idx2\<close> or appended.
\<close>

definition DuplicateRowToS :: "sheetS \<Rightarrow> int \<Rightarrow> int \<Rightarrow> error + sheetS" where
  "DuplicateRowToS st row row2 =
     (if row < 1 then Inl (InvalidRowNumber row)
      else if row > int (length (rowsS st)) \<or> row2 < 1 \<or> row = row2 then Inr st
      else case indexOfRowS (rowsS st) row of
        None \<Rightarrow> Inr st
      | Some i \<Rightarrow>
          (case adjustHelperS st row2 1 of
             Inl e \<Rightarrow> Inl e
           | Inr st1 \<Rightarrow>
               if indexOfRowS (rowsS st1) row2 = None \<and> int (length (rowsS st1)) \<ge> row2
               then Inr st1
               else
                 (case ajustSingleRowDimensionsS
                         ((arrays st1)(allocated st1 := cellsS (arrays st1) (rowsS st ! i)))
                         ((rowsS st ! i)\<lparr>sC := Some (allocated st1)\<rparr>) row2 of
                    (h, rowCopy) \<Rightarrow>
                      duplicateMergeCellsS
                        (st1\<lparr>rowsS := (case indexOfRowS (rowsS st1) row2 of
                                         Some idx2 \<Rightarrow> (rowsS st1)[idx2 := rowCopy]
                                       | None \<Rightarrow> rowsS st1 @ [rowCopy]),
                              arrays := h,
                              allocated := allocated st1 + 1\<rparr>) row row2)))"

text \<open>
  Vocabulary for statements about the store: the addresses its records use
  (\<open>addrsOf\<close>); a store in which no two records share an array and every array in use is
  allocated (\<open>wfS\<close>); and the worksheet a store stands for (\<open>sheetOf\<close>).
\<close>

definition addrsOf :: "rowS list \<Rightarrow> nat list" where
  "addrsOf rs = concat (map (\<lambda>r. case sC r of None \<Rightarrow> [] | Some q \<Rightarrow> [q]) rs)"

definition wfS :: "sheetS \<Rightarrow> bool" where
  "wfS st = (distinct (addrsOf (rowsS st)) \<and>
             list_all (\<lambda>q. q < allocated st) (addrsOf (rowsS st)))"

definition rowOf :: "(nat \<Rightarrow> xlsxC list) \<Rightarrow> rowS \<Rightarrow> xlsxRow" where
  "rowOf h r = \<lparr>rR = sR r, rC = cellsS h r, rHidden = sHidden r,
                rOutlineLevel = sOutlineLevel r\<rparr>"

definition sheetOf :: "sheetS \<Rightarrow> xlsxWorksheet" where
  "sheetOf st = \<lparr>Row = map (rowOf (arrays st)) (rowsS st), MergeCells = mergesS st\<rparr>"



text \<open>The records a shift renumbers.\<close>

definition shifted :: "int \<Rightarrow> int \<Rightarrow> rowS \<Rightarrow> bool" where
  "shifted num offset r = (sR r \<ge> num \<and> sR r + offset > 0)"

section \<open>Theorems\<close>

subsection \<open>Row visibility\<close>

lemma length_prepareSheetXML:
  "length (Row (prepareSheetXML xlsx col row)) = max (length (Row xlsx)) (nat row)"
  by (simp add: prepareSheetXML_def)

text \<open>
  C1, as the code has it. \<open>GetRowVisible\<close> of a row number beyond the stored records
  returns false (not visible) and no error; and hiding any row \<open>r \<ge> 1\<close> with
  \<open>SetRowVisible\<close> succeeds, after which \<open>GetRowVisible\<close> of that row returns false.
\<close>

theorem C1_GetRowVisible_unset_false_and_hide:
  "(1 \<le> r \<and> int (length (Row xlsx)) < r \<longrightarrow> GetRowVisible xlsx r = Inr False) \<and>
   (1 \<le> r \<longrightarrow> (\<exists>xlsx'. SetRowVisible xlsx r False = Inr xlsx' \<and>
                        GetRowVisible xlsx' r = Inr False))"
proof (intro conjI impI)
  assume "1 \<le> r \<and> int (length (Row xlsx)) < r"
  then show "GetRowVisible xlsx r = Inr False"
    by (simp add: GetRowVisible_def)
next
  assume r: "1 \<le> r"
  let ?p = "prepareSheetXML xlsx 0 r"
  have len: "nat (r - 1) < length (Row ?p)"
    using r by (simp add: length_prepareSheetXML)
  then have "SetRowVisible xlsx r False =
      Inr (?p\<lparr>Row := (Row ?p)[nat (r - 1) := (Row ?p ! nat (r - 1))\<lparr>rHidden := True\<rparr>]\<rparr>)"
    using r by (simp add: SetRowVisible_def Let_def)
  moreover have "GetRowVisible
      (?p\<lparr>Row := (Row ?p)[nat (r - 1) := (Row ?p ! nat (r - 1))\<lparr>rHidden := True\<rparr>]\<rparr>) r
      = Inr False"
    using r len by (auto simp: GetRowVisible_def)
  ultimately show "\<exists>xlsx'. SetRowVisible xlsx r False = Inr xlsx' \<and>
                        GetRowVisible xlsx' r = Inr False"
    by blast
qed

theorem C1_witness:
  "GetRowVisible \<lparr>Row = [emptyRow 1], MergeCells = None\<rparr> 3 = Inr False \<and>
   (\<exists>xlsx'. SetRowVisible \<lparr>Row = [emptyRow 1], MergeCells = None\<rparr> 3 False = Inr xlsx' \<and>
            GetRowVisible xlsx' 3 = Inr False)"
  using C1_GetRowVisible_unset_false_and_hide
          [of 3 "\<lparr>Row = [emptyRow 1], MergeCells = None\<rparr>"]
  by simp

theorem C1_counterexample:
  "(1::int) \<le> 2 \<and> int (length (Row \<lparr>Row = [emptyRow 1], MergeCells = None\<rparr>)) < 2 \<and>
   GetRowVisible \<lparr>Row = [emptyRow 1], MergeCells = None\<rparr> 2 \<noteq> Inr True"
  by (simp add: GetRowVisible_def)

subsection \<open>The row densifier\<close>

lemma newlist_loop_total:
  "\<exists>nl. newlist_loop cols rowIdx = Inr nl"
  by (induction cols) (auto simp: CoordinatesToCellName_def)

lemma newlist_loop_shape:
  "newlist_loop cols rowIdx = Inr nl \<Longrightarrow>
   length nl = length cols \<and>
   (\<forall>k < length cols. \<exists>name.
       CoordinatesToCellName (int (cols ! k) + 1) (int rowIdx + 1) = Inr name \<and>
       nl ! k = emptyC name)"
proof (induction cols arbitrary: nl)
  case Nil
  then show ?case by simp
next
  case (Cons a cols)
  then show ?case
    by (auto split: sum.splits simp: nth_Cons split: nat.splits)
qed

lemma overlay_total:
  "list_all (inCols (int (length cs))) old \<Longrightarrow> \<exists>cs'. overlay old cs = Inr cs'"
proof (induction old arbitrary: cs)
  case Nil
  then show ?case by simp
next
  case (Cons c old)
  from Cons.prems have c: "inCols (int (length cs)) c"
    and old: "list_all (inCols (int (length cs))) old" by simp_all
  from c obtain n r where dec: "CellNameToCoordinates (cR c) = Inr (n, r)"
    and rng: "1 \<le> n" "n \<le> int (length cs)"
    by (auto simp: inCols_def split: sum.splits prod.splits)
  have "list_all (inCols (int (length (cs[nat (n - 1) := c])))) old"
    using old by simp
  from Cons.IH [OF this] obtain cs' where
    "overlay old (cs[nat (n - 1) := c]) = Inr cs'" by blast
  then show ?case using dec rng by auto
qed

lemma overlay_shape:
  "overlay old cs = Inr cs' \<Longrightarrow>
   length cs' = length cs \<and>
   (\<forall>k < length cs.
      (cs' ! k \<in> set old \<and> colOf (cs' ! k) = int k + 1) \<or>
      (cs' ! k = cs ! k \<and> (\<forall>c \<in> set old. colOf c \<noteq> int k + 1)))"
proof (induction old arbitrary: cs cs')
  case Nil
  then show ?case by simp
next
  case (Cons c old)
  from Cons.prems obtain colNum r where
    dec: "CellNameToCoordinates (cR c) = Inr (colNum, r)"
    and rng: "1 \<le> colNum" "nat (colNum - 1) < length cs"
    and rec: "overlay old (cs[nat (colNum - 1) := c]) = Inr cs'"
    by (auto split: sum.splits prod.splits if_splits)
  have col: "colOf c = colNum" using dec by (simp add: colOf_def)
  from Cons.IH [OF rec] have len: "length cs' = length cs"
    and ih: "\<forall>k < length cs.
      (cs' ! k \<in> set old \<and> colOf (cs' ! k) = int k + 1) \<or>
      (cs' ! k = cs[nat (colNum - 1) := c] ! k \<and> (\<forall>c \<in> set old. colOf c \<noteq> int k + 1))"
    by auto
  show ?case
  proof (intro conjI allI impI)
    show "length cs' = length cs" by (rule len)
  next
    fix k assume k: "k < length cs"
    from ih k consider
        (a) "cs' ! k \<in> set old" "colOf (cs' ! k) = int k + 1"
      | (b) "cs' ! k = cs[nat (colNum - 1) := c] ! k" "\<forall>c \<in> set old. colOf c \<noteq> int k + 1"
      by blast
    then show "(cs' ! k \<in> set (c # old) \<and> colOf (cs' ! k) = int k + 1) \<or>
               (cs' ! k = cs ! k \<and> (\<forall>c \<in> set (c # old). colOf c \<noteq> int k + 1))"
    proof cases
      case a
      then show ?thesis by simp
    next
      case b
      show ?thesis
      proof (cases "k = nat (colNum - 1)")
        case True
        then have "cs' ! k = c" using b k by simp
        moreover have "colOf c = int k + 1" using True rng col by simp
        ultimately show ?thesis by simp
      next
        case False
        then have "cs' ! k = cs ! k" using b by simp
        moreover have "colOf c \<noteq> int k + 1" using False col rng by auto
        ultimately show ?thesis using b by simp
      qed
    qed
  qed
qed

lemma overlay_keeps:
  "overlay old cs = Inr cs' \<Longrightarrow> distinct (map colOf old) \<Longrightarrow> c \<in> set old \<Longrightarrow>
   cs' ! nat (colOf c - 1) = c"
proof (induction old arbitrary: cs cs')
  case Nil
  then show ?case by simp
next
  case (Cons d old)
  from Cons.prems(1) obtain colNum r where
    dec: "CellNameToCoordinates (cR d) = Inr (colNum, r)"
    and rng: "1 \<le> colNum" "nat (colNum - 1) < length cs"
    and rec: "overlay old (cs[nat (colNum - 1) := d]) = Inr cs'"
    by (auto split: sum.splits prod.splits if_splits)
  have col: "colOf d = colNum" using dec by (simp add: colOf_def)
  show ?case
  proof (cases "c \<in> set old")
    case True
    then show ?thesis using Cons.IH [OF rec] Cons.prems(2) by simp
  next
    case False
    then have cd: "c = d" using Cons.prems(3) by simp
    have e1: "int (nat (colNum - 1)) + 1 = colOf d" using col rng by simp
    have "colOf d \<notin> colOf ` set old" using Cons.prems(2) by simp
    then have "\<forall>e \<in> set old. colOf e \<noteq> colOf d" by (metis imageI)
    then have notin: "\<forall>e \<in> set old. colOf e \<noteq> int (nat (colNum - 1)) + 1"
      unfolding e1 .
    from overlay_shape [OF rec] rng
    have "(cs' ! nat (colNum - 1) \<in> set old \<and>
             colOf (cs' ! nat (colNum - 1)) = int (nat (colNum - 1)) + 1) \<or>
          (cs' ! nat (colNum - 1) = cs[nat (colNum - 1) := d] ! nat (colNum - 1))"
      by auto
    then have "cs' ! nat (colNum - 1) = d" using notin rng by auto
    then show ?thesis using cd col by simp
  qed
qed

lemma checkRow_loop_shape:
  "checkRow_loop n rows = Inr rows' \<Longrightarrow>
   length rows' = length rows \<and>
   (\<forall>i < length rows. checkRowData (n + i) (rows ! i) = Inr (rows' ! i))"
proof (induction rows arbitrary: n rows')
  case Nil
  then show ?case by simp
next
  case (Cons a rows)
  from Cons.prems obtain a' rest' where a: "checkRowData n a = Inr a'"
    and rest: "checkRow_loop (Suc n) rows = Inr rest'"
    and eq: "rows' = a' # rest'"
    by (auto split: sum.splits)
  from Cons.IH [OF rest] have len: "length rest' = length rows"
    and ih: "\<forall>i < length rows. checkRowData (Suc n + i) (rows ! i) = Inr (rest' ! i)"
    by auto
  show ?case
  proof (intro conjI allI impI)
    show "length rows' = length (a # rows)" using eq len by simp
  next
    fix i assume "i < length (a # rows)"
    then show "checkRowData (n + i) ((a # rows) ! i) = Inr (rows' ! i)"
      using a ih eq by (cases i) auto
  qed
qed

lemma checkRowData_total:
  "cellsOk rowData \<Longrightarrow> \<exists>rowData'. checkRowData rowIdx rowData = Inr rowData'"
proof (cases "rC rowData = []")
  case True
  then show ?thesis by (simp add: checkRowData_def)
next
  case False
  assume ok: "cellsOk rowData"
  with False obtain lastCol r where
    dec: "CellNameToCoordinates (cR (last (rC rowData))) = Inr (lastCol, r)"
    and all: "list_all (inCols lastCol) (rC rowData)"
    by (auto simp: cellsOk_def split: sum.splits prod.splits)
  show ?thesis
  proof (cases "int (length (rC rowData)) < lastCol")
    case False
    then show ?thesis using dec \<open>rC rowData \<noteq> []\<close> by (simp add: checkRowData_def)
  next
    case True
    obtain nl where nl: "newlist_loop [0 ..< nat lastCol] rowIdx = Inr nl"
      using newlist_loop_total by blast
    then have "length nl = nat lastCol" using newlist_loop_shape [OF nl] by simp
    then have "int (length nl) = lastCol" using True by simp
    with all obtain cs where "overlay (rC rowData) nl = Inr cs"
      using overlay_total [of nl "rC rowData"] by auto
    then show ?thesis using dec nl True \<open>rC rowData \<noteq> []\<close>
      by (simp add: checkRowData_def)
  qed
qed

lemma checkRow_loop_total:
  "list_all cellsOk rows \<Longrightarrow> \<exists>rows'. checkRow_loop n rows = Inr rows'"
proof (induction rows arbitrary: n)
  case Nil
  then show ?case by simp
next
  case (Cons a rows)
  then obtain a' where "checkRowData n a = Inr a'"
    using checkRowData_total [of a n] by auto
  moreover from Cons obtain rows' where "checkRow_loop (Suc n) rows = Inr rows'"
    by auto
  ultimately show ?case by simp
qed

text \<open>
  What \<open>checkRow\<close> does to the record stored at index \<open>i\<close>, in a worksheet whose rows
  all satisfy \<open>cellsOk\<close>, when its cell count is below the column \<open>lastCol\<close> of its
  last cell: it succeeds and the record holds exactly \<open>lastCol\<close> cells in column order.
  Position \<open>k\<close> holds either an original cell of column \<open>k + 1\<close>, or, when no
  original cell has that column, the reference-only placeholder named from column
  \<open>k + 1\<close> and the number \<open>i + 1\<close> of the record's position in the store. When the
  original columns are distinct every original cell is kept whole at the index of its
  column.
\<close>

lemma checkRow_dense_at_position:
  assumes ok: "list_all cellsOk (Row xlsx)"
    and i: "i < length (Row xlsx)"
    and ne: "rC (Row xlsx ! i) \<noteq> []"
    and dec: "CellNameToCoordinates (cR (last (rC (Row xlsx ! i)))) = Inr (lastCol, lr)"
    and lt: "int (length (rC (Row xlsx ! i))) < lastCol"
  shows "\<exists>xlsx'. checkRow xlsx = Inr xlsx' \<and>
      length (Row xlsx') = length (Row xlsx) \<and>
      length (rC (Row xlsx' ! i)) = nat lastCol \<and>
      (\<forall>k < nat lastCol.
         (rC (Row xlsx' ! i) ! k \<in> set (rC (Row xlsx ! i)) \<and>
          colOf (rC (Row xlsx' ! i) ! k) = int k + 1) \<or>
         ((\<forall>c \<in> set (rC (Row xlsx ! i)). colOf c \<noteq> int k + 1) \<and>
          (\<exists>name. CoordinatesToCellName (int k + 1) (int i + 1) = Inr name \<and>
                  rC (Row xlsx' ! i) ! k = emptyC name))) \<and>
      (distinct (map colOf (rC (Row xlsx ! i))) \<longrightarrow>
         (\<forall>c \<in> set (rC (Row xlsx ! i)). rC (Row xlsx' ! i) ! nat (colOf c - 1) = c))"
proof -
  let ?old = "rC (Row xlsx ! i)"
  obtain rows' where loop: "checkRow_loop 0 (Row xlsx) = Inr rows'"
    using checkRow_loop_total [OF ok] by blast
  from checkRow_loop_shape [OF loop] i
  have len: "length rows' = length (Row xlsx)"
    and at: "checkRowData i (Row xlsx ! i) = Inr (rows' ! i)" by auto
  obtain nl where nl: "newlist_loop [0 ..< nat lastCol] i = Inr nl"
    using newlist_loop_total by blast
  from at ne dec lt nl obtain cs where ov: "overlay ?old nl = Inr cs"
    and ri: "rows' ! i = (Row xlsx ! i)\<lparr>rC := cs\<rparr>"
    by (auto simp: checkRowData_def split: sum.splits)
  from newlist_loop_shape [OF nl] have nlen: "length nl = nat lastCol"
    and nat_k: "\<forall>k < nat lastCol. \<exists>name.
        CoordinatesToCellName (int k + 1) (int i + 1) = Inr name \<and> nl ! k = emptyC name"
    by auto
  from overlay_shape [OF ov] nlen have clen: "length cs = nat lastCol"
    and cat: "\<forall>k < nat lastCol.
      (cs ! k \<in> set ?old \<and> colOf (cs ! k) = int k + 1) \<or>
      (cs ! k = nl ! k \<and> (\<forall>c \<in> set ?old. colOf c \<noteq> int k + 1))"
    by auto
  have cells: "rC (rows' ! i) = cs" using ri by simp
  have shape: "\<forall>k < nat lastCol.
         (cs ! k \<in> set ?old \<and> colOf (cs ! k) = int k + 1) \<or>
         ((\<forall>c \<in> set ?old. colOf c \<noteq> int k + 1) \<and>
          (\<exists>name. CoordinatesToCellName (int k + 1) (int i + 1) = Inr name \<and>
                  cs ! k = emptyC name))"
  proof (intro allI impI)
    fix k assume k: "k < nat lastCol"
    from cat k consider
        (a) "cs ! k \<in> set ?old" "colOf (cs ! k) = int k + 1"
      | (b) "cs ! k = nl ! k" "\<forall>c \<in> set ?old. colOf c \<noteq> int k + 1"
      by blast
    then show "(cs ! k \<in> set ?old \<and> colOf (cs ! k) = int k + 1) \<or>
         ((\<forall>c \<in> set ?old. colOf c \<noteq> int k + 1) \<and>
          (\<exists>name. CoordinatesToCellName (int k + 1) (int i + 1) = Inr name \<and>
                  cs ! k = emptyC name))"
    proof cases
      case a
      then show ?thesis by blast
    next
      case b
      with nat_k k show ?thesis by auto
    qed
  qed
  have keep: "distinct (map colOf ?old) \<longrightarrow> (\<forall>c \<in> set ?old. cs ! nat (colOf c - 1) = c)"
    using overlay_keeps [OF ov] by blast
  have "checkRow xlsx = Inr (xlsx\<lparr>Row := rows'\<rparr>)"
    using loop by (simp add: checkRow_def)
  moreover have "length (Row (xlsx\<lparr>Row := rows'\<rparr>)) = length (Row xlsx)"
    using len by simp
  moreover have "rC (Row (xlsx\<lparr>Row := rows'\<rparr>) ! i) = cs" using cells by simp
  ultimately show ?thesis using clen shape keep by (metis (no_types, lifting))
qed

lemma checkRow_sheet15:
  "checkRow sheet15 = Inr (sheet15\<lparr>Row := map (\<lambda>i. emptyRow (int i + 1)) [0 ..< 14] @
     [docRow15\<lparr>rC :=
       [\<lparr>cR = ''A15'', cS = 2, cT = [], cV = [], cIS = None\<rparr>,
        \<lparr>cR = ''B15'', cS = 2, cT = [], cV = [], cIS = None\<rparr>,
        emptyC ''C15'', emptyC ''D15'', emptyC ''E15'',
        \<lparr>cR = ''F15'', cS = 1, cT = [], cV = [], cIS = None\<rparr>,
        \<lparr>cR = ''G15'', cS = 1, cT = [], cV = [], cIS = None\<rparr>]\<rparr>]\<rparr>)"
  by code_simp

text \<open>
  C2 on the row of the comment above \<open>checkRow\<close>, stored as the only record of the
  sheet. The claim, like that comment, gives row 15 with cells at columns 1, 2, 6 and 7
  the cells A15 to G15; \<open>checkRow\<close> names the placeholders from the index of the
  record and not from the row's number, and the row becomes A15, B15, C1, D1, E1, F15,
  G15.
\<close>

theorem C2_checkRow_row15_stored_first:
  "rR (Row sparse15 ! 0) = 15 \<and>
   map cR (rC (Row sparse15 ! 0)) = [''A15'', ''B15'', ''F15'', ''G15''] \<and>
   checkRow sparse15 = Inr (sparse15\<lparr>Row :=
     [docRow15\<lparr>rC :=
       [\<lparr>cR = ''A15'', cS = 2, cT = [], cV = [], cIS = None\<rparr>,
        \<lparr>cR = ''B15'', cS = 2, cT = [], cV = [], cIS = None\<rparr>,
        emptyC ''C1'', emptyC ''D1'', emptyC ''E1'',
        \<lparr>cR = ''F15'', cS = 1, cT = [], cV = [], cIS = None\<rparr>,
        \<lparr>cR = ''G15'', cS = 1, cT = [], cV = [], cIS = None\<rparr>]\<rparr>]\<rparr>)"
  by code_simp

text \<open>
  The same row stored as the 15th record does become A15 to G15, with the original cells
  kept at columns 1, 2, 6 and 7.
\<close>

lemma checkRow_row15_stored_15th:
  "list_all cellsOk (Row sheet15) \<and> rR (Row sheet15 ! 14) = 15 \<and>
   map cR (rC (Row sheet15 ! 14)) = [''A15'', ''B15'', ''F15'', ''G15''] \<and>
   (\<exists>xlsx'. checkRow sheet15 = Inr xlsx' \<and>
      length (rC (Row xlsx' ! 14)) = 7 \<and>
      map cR (rC (Row xlsx' ! 14)) =
        [''A15'', ''B15'', ''C15'', ''D15'', ''E15'', ''F15'', ''G15''] \<and>
      (\<forall>c \<in> set (rC (Row sheet15 ! 14)). rC (Row xlsx' ! 14) ! nat (colOf c - 1) = c))"
proof -
  have h1: "list_all cellsOk (Row sheet15)" by code_simp
  have h2: "14 < length (Row sheet15)" by code_simp
  have h3: "rC (Row sheet15 ! 14) \<noteq> []" by code_simp
  have h4: "CellNameToCoordinates (cR (last (rC (Row sheet15 ! 14)))) = Inr (7, 15)"
    by code_simp
  have h5: "int (length (rC (Row sheet15 ! 14))) < 7" by code_simp
  have h6: "distinct (map colOf (rC (Row sheet15 ! 14)))" by code_simp
  have h7: "rR (Row sheet15 ! 14) = 15" by code_simp
  have h8: "map cR (rC (Row sheet15 ! 14)) = [''A15'', ''B15'', ''F15'', ''G15'']"
    by code_simp
  from checkRow_dense_at_position [OF h1 h2 h3 h4 h5] h6 obtain xlsx' where
    r: "checkRow sheet15 = Inr xlsx'" and l: "length (rC (Row xlsx' ! 14)) = nat 7"
    and k: "\<forall>c \<in> set (rC (Row sheet15 ! 14)). rC (Row xlsx' ! 14) ! nat (colOf c - 1) = c"
    by blast
  have "map cR (rC (Row xlsx' ! 14)) =
        [''A15'', ''B15'', ''C15'', ''D15'', ''E15'', ''F15'', ''G15'']"
    using r unfolding checkRow_sheet15 by (auto simp: docRow15_def emptyC_def nth_append)
  then show ?thesis using h1 h7 h8 r l k by auto
qed

text \<open>
  A row whose last cell is not its rightmost: with the cells E1 and C1, in that order,
  the new list has three cells and storing E1 at index 4 is a run-time panic.
\<close>

lemma checkRow_last_cell_not_rightmost:
  "checkRow \<lparr>Row = [\<lparr>rR = 1, rC = [emptyC ''E1'', emptyC ''C1''], rHidden = False,
                          rOutlineLevel = 0\<rparr>], MergeCells = None\<rparr>
   = Inl IndexOutOfRange"
  by code_simp

subsection \<open>Value resolution\<close>

lemma getValueFrom_shared_in_range:
  "cT c = ''s'' \<Longrightarrow> cV c \<noteq> [] \<Longrightarrow> 0 \<le> fst (Atoi (cV c)) \<Longrightarrow>
   fst (Atoi (cV c)) < int (length d) \<Longrightarrow>
   getValueFrom fv c d = Inr (fv (cS c) (d ! nat (fst (Atoi (cV c)))))"
  by (simp add: getValueFrom_def)

lemma getValueFrom_shared_above_range:
  "cT c = ''s'' \<Longrightarrow> int (length d) \<le> fst (Atoi (cV c)) \<Longrightarrow>
   getValueFrom fv c d = Inr (fv (cS c) (cV c))"
  by (simp add: getValueFrom_def)

text \<open>
  C7 at a negative index. The claim says an index outside the shared-string table falls
  back to the raw value with no error; \<open>getValueFrom\<close> only compares the index with
  the table's length, so a shared-string cell whose raw value is \<open>-1\<close> indexes the
  table at \<open>-1\<close>, a run-time panic, whatever the table holds.
\<close>

theorem C7_getValueFrom_negative_index_panics:
  "getValueFrom fv \<lparr>cR = ''A1'', cS = s, cT = ''s'', cV = ''-1'', cIS = None\<rparr> d
     = Inl IndexOutOfRange"
  by (simp add: getValueFrom_def Atoi_def isDigit_def digitsToNat_def)

subsection \<open>The pre-scan of the row reader\<close>

lemma Rows_attrs_last:
  "list_all (\<lambda>a. snd (Atoi (snd a)) = None) (filter isR attrs) \<Longrightarrow>
   Rows_attrs attrs row =
     Inr (if filter isR attrs = [] then row
          else fst (Atoi (snd (last (filter isR attrs)))))"
proof (induction attrs arbitrary: row)
  case Nil
  then show ?case by simp
next
  case (Cons a attrs)
  obtain name val where a: "a = (name, val)" by (cases a)
  show ?case
  proof (cases "name = ''r''")
    case True
    with Cons.prems a obtain n where n: "Atoi val = (n, None)"
      by (cases "Atoi val") (auto simp: isR_def)
    have "list_all (\<lambda>a. snd (Atoi (snd a)) = None) (filter isR attrs)"
      using Cons.prems by (auto split: if_splits)
    moreover have ia: "isR (name, val)" using True by (simp add: isR_def)
    ultimately show ?thesis
      using Cons.IH [of n] a True n by simp
  next
    case False
    have "list_all (\<lambda>a. snd (Atoi (snd a)) = None) (filter isR attrs)"
      using Cons.prems by (auto split: if_splits)
    moreover have ia: "\<not> isR (name, val)" using False by (simp add: isR_def)
    ultimately show ?thesis
      using Cons.IH [of row] a False by simp
  qed
qed

lemma Rows_scan_last:
  "rowsNumbered tokens \<Longrightarrow>
   Rows_scan tokens row tot =
     Inr (if declaredRows tokens = [] then tot else last (declaredRows tokens))"
proof (induction tokens arbitrary: row tot)
  case Nil
  then show ?case by simp
next
  case (Cons t tokens)
  show ?case
  proof (cases t)
    case (StartElement name attrs)
    show ?thesis
    proof (cases "name = ''row''")
      case True
      with Cons.prems StartElement have ne: "filter isR attrs \<noteq> []"
        and ps: "list_all (\<lambda>a. snd (Atoi (snd a)) = None) (filter isR attrs)"
        and rest: "rowsNumbered tokens" by auto
      show ?thesis
        using Cons.IH [OF rest] Rows_attrs_last [OF ps] ne True StartElement by simp
    next
      case False
      with Cons show ?thesis using StartElement by simp
    qed
  qed (use Cons in auto)
qed

lemma Next_iter:
  "curRow (((snd \<circ> Next) ^^ k) rows) = curRow rows + int k \<and>
   totalRow (((snd \<circ> Next) ^^ k) rows) = totalRow rows"
  by (induction k) (auto simp: Next_def)

lemma Max_last_sorted:
  "sorted (xs :: int list) \<Longrightarrow> xs \<noteq> [] \<Longrightarrow> last xs = Max (set xs)"
proof (induction xs)
  case Nil
  then show ?case by simp
next
  case (Cons x xs)
  show ?case
  proof (cases "xs = []")
    case True
    then show ?thesis by simp
  next
    case False
    with Cons have "last xs = Max (set xs)" by simp
    moreover have "x \<le> Max (set xs)"
    proof -
      from False obtain y where y: "y \<in> set xs" by (cases xs) auto
      then have "x \<le> y" using Cons.prems by simp
      also have "y \<le> Max (set xs)" using y by simp
      finally show ?thesis .
    qed
    ultimately show ?thesis using False by (simp add: max_def)
  qed
qed

text \<open>
  C5, as the code has it. When every \<open>row\<close> start tag has an \<open>r\<close> attribute that
  parses, \<open>Rows\<close> succeeds and sets \<open>totalRow\<close> to the number declared by the last
  \<open>row\<close> element in document order (0 when there is none), which is the maximum
  declared number when the numbers are declared in ascending order; the call of \<open>Next\<close>
  number \<open>k + 1\<close> returns true exactly when \<open>k + 1 \<le> totalRow\<close>.
\<close>

theorem C5_Rows_totalRow_last_declared:
  assumes "rowsNumbered tokens"
  shows "\<exists>rows. Rows_open tokens = Inr rows \<and>
     totalRow rows = (if declaredRows tokens = [] then 0 else last (declaredRows tokens)) \<and>
     (sorted (declaredRows tokens) \<and> declaredRows tokens \<noteq> [] \<longrightarrow>
        totalRow rows = Max (set (declaredRows tokens))) \<and>
     (\<forall>k. fst (Next (((snd \<circ> Next) ^^ k) rows)) = (int k + 1 \<le> totalRow rows))"
proof -
  let ?n = "if declaredRows tokens = [] then 0 else last (declaredRows tokens)"
  let ?rows = "\<lparr>err = None, curRow = 0, totalRow = ?n, stashRow = 0, decoder = tokens\<rparr>"
  have a: "Rows_open tokens = Inr ?rows"
    using Rows_scan_last [OF assms, of 0 0] by (simp add: Rows_open_def)
  have b: "totalRow ?rows = ?n" by simp
  have c: "\<forall>k. fst (Next (((snd \<circ> Next) ^^ k) ?rows)) = (int k + 1 \<le> totalRow ?rows)"
    using Next_iter [of _ ?rows] by (simp add: Next_def)
  have d: "sorted (declaredRows tokens) \<and> declaredRows tokens \<noteq> [] \<longrightarrow>
        totalRow ?rows = Max (set (declaredRows tokens))"
    using Max_last_sorted by auto
  show ?thesis
    by (rule exI [of _ ?rows], intro conjI) (rule a, rule b, rule d, rule c)
qed

text \<open>
  C5 fails for rows declared out of order: with row 3 declared before row 1,
  \<open>totalRow\<close> is 1, not 3, and the second \<open>Next\<close> already returns false.
\<close>

theorem C5_counterexample:
  "declaredRows toks31 = [3, 1] \<and>
   Rows_open toks31 =
     Inr \<lparr>err = None, curRow = 0, totalRow = 1, stashRow = 0, decoder = toks31\<rparr> \<and>
   fst (Next (snd (Next \<lparr>err = None, curRow = 0, totalRow = 1, stashRow = 0,
                         decoder = toks31\<rparr>))) = False"
  by code_simp

theorem C5_witness:
  "rowsNumbered toks135 \<and> sorted (declaredRows toks135) \<and> declaredRows toks135 \<noteq> [] \<and>
   (\<exists>rows. Rows_open toks135 = Inr rows \<and> totalRow rows = 5 \<and>
      totalRow rows = Max (set (declaredRows toks135)) \<and>
      (\<forall>k. fst (Next (((snd \<circ> Next) ^^ k) rows)) = (int k + 1 \<le> totalRow rows)))"
proof -
  have h: "rowsNumbered toks135" by code_simp
  have d: "declaredRows toks135 = [1, 3, 5]" by code_simp
  from C5_Rows_totalRow_last_declared [OF h] show ?thesis using h d by auto
qed

subsection \<open>Reading rows\<close>

lemma Columns_loop_skip:
  "noRowTokens ts \<Longrightarrow>
   Columns_loop fv d cur stash (ts @ rest) cols = Columns_loop fv d cur stash rest cols"
proof (induction ts)
  case Nil
  then show ?case by simp
next
  case (Cons t ts)
  then show ?case by (cases t) (auto simp: noRowTokens_def)
qed

lemma Columns_loop_body:
  "list_all insideRow body \<Longrightarrow> denseValues fv d (cellsOf body) acc = Some v \<Longrightarrow>
   Columns_loop fv d cur stash (body @ rest) acc = Columns_loop fv d cur stash rest v"
proof (induction body arbitrary: acc)
  case Nil
  then show ?case by simp
next
  case (Cons t body)
  then show ?case by (cases t) (auto split: sum.splits prod.splits)
qed

lemma Columns_attrs_noR: "noR b \<Longrightarrow> Columns_attrs b cur = GoOn"
  by (induction b) (auto simp: noR_def)

lemma Columns_attrs_r:
  "noR a \<Longrightarrow> noR b \<Longrightarrow> Atoi v = (n, None) \<Longrightarrow>
   Columns_attrs (a @ (''r'', v) # b) cur = (if n > cur then ReturnStash (n - 1) else GoOn)"
  by (induction a) (auto simp: noR_def Columns_attrs_noR)

lemma Rows_attrs_noR: "noR b \<Longrightarrow> Rows_attrs b row = Inr row"
  by (induction b) (auto simp: noR_def)

lemma Rows_attrs_r:
  "noR a \<Longrightarrow> noR b \<Longrightarrow> Atoi v = (n, None) \<Longrightarrow>
   Rows_attrs (a @ (''r'', v) # b) row = Inr n"
  by (induction a) (auto simp: noR_def Rows_attrs_noR)

lemma Rows_scan_skip:
  "noRowTokens ts \<Longrightarrow> Rows_scan (ts @ rest) row tot = Rows_scan rest row tot"
proof (induction ts)
  case Nil
  then show ?case by simp
next
  case (Cons t ts)
  then show ?case by (cases t) (auto simp: noRowTokens_def)
qed

lemma Rows_scan_body:
  "list_all insideRow body \<Longrightarrow>
   Rows_scan (body @ rest) row tot = Rows_scan rest row tot"
proof (induction body)
  case Nil
  then show ?case by simp
next
  case (Cons t body)
  then show ?case by (cases t) auto
qed

lemma Rows_scan_end:
  "Rows_scan (EndElement name # rest) row tot = Rows_scan rest row tot"
  by simp

lemma Atoi_1: "Atoi ''1'' = (1, None)"
  by (simp add: Atoi_def isDigit_def digitsToNat_def)

lemma Atoi_3: "Atoi ''3'' = (3, None)"
  by (simp add: Atoi_def isDigit_def digitsToNat_def)

lemma Atoi_5: "Atoi ''5'' = (5, None)"
  by (simp add: Atoi_def isDigit_def digitsToNat_def)

lemma GetRows_loop_step:
  "curRow rows + 1 \<le> totalRow rows \<Longrightarrow> err rows = None \<Longrightarrow>
   Columns fv d (rows\<lparr>curRow := curRow rows + 1\<rparr>) = Inr (row, None, rows2) \<Longrightarrow>
   GetRows_loop fv d rows results = GetRows_loop fv d rows2 (results @ [row])"
  by (subst GetRows_loop.simps) (simp add: Next_def)

lemma GetRows_loop_stop:
  "\<not> curRow rows + 1 \<le> totalRow rows \<Longrightarrow> GetRows_loop fv d rows results = Inr results"
  by (subst GetRows_loop.simps) (simp add: Next_def)

text \<open>
  C6, as the code has it. For a worksheet whose XML declares rows 1, 3 and 5 only, in
  that document order (any attributes besides \<open>r\<close> on the row tags, any tokens other
  than rows and cells around the rows, any tokens but row tags inside them), and whose
  three rows have dense value lists \<open>v1\<close>, \<open>v3\<close> and \<open>v5\<close> (every cell reference
  parses and value resolution does not panic), \<open>GetRows\<close> returns exactly five
  sequences: \<open>v1\<close>, the empty sequence, \<open>v3\<close>, the empty sequence, \<open>v5\<close>.
\<close>

theorem C6_GetRows_rows_1_3_5_in_order:
  assumes gaps: "noRowTokens pre" "noRowTokens g1" "noRowTokens g2" "noRowTokens post"
    and attrs: "noR a1" "noR b1" "noR a3" "noR b3" "noR a5" "noR b5"
    and bodies: "list_all insideRow body1" "list_all insideRow body3"
      "list_all insideRow body5"
    and v1: "denseValues fv d (cellsOf body1) [] = Some v1"
    and v3: "denseValues fv d (cellsOf body3) [] = Some v3"
    and v5: "denseValues fv d (cellsOf body5) [] = Some v5"
  shows "GetRows fv d
     (pre @ StartElement ''row'' (a1 @ (''r'', ''1'') # b1) # body1 @
        EndElement ''row'' #
      g1 @ StartElement ''row'' (a3 @ (''r'', ''3'') # b3) # body3 @
        EndElement ''row'' #
      g2 @ StartElement ''row'' (a5 @ (''r'', ''5'') # b5) # body5 @
        EndElement ''row'' # post)
     = Inr [v1, [], v3, [], v5]"
proof -
  define T5 where "T5 = post"
  define T4 where "T4 = body5 @ EndElement ''row'' # T5"
  define T3 where "T3 = g2 @ StartElement ''row'' (a5 @ (''r'', ''5'') # b5) # T4"
  define T2 where "T2 = body3 @ EndElement ''row'' # T3"
  define T1 where "T1 = g1 @ StartElement ''row'' (a3 @ (''r'', ''3'') # b3) # T2"
  define T0 where "T0 = pre @ StartElement ''row'' (a1 @ (''r'', ''1'') # b1) #
                          body1 @ EndElement ''row'' # T1"
  define R where "R = (\<lambda>c s ts.
     \<lparr>err = None, curRow = c, totalRow = 5, stashRow = s, decoder = ts\<rparr>)"
  have scan5: "Rows_scan T5 5 5 = Inr 5"
    using gaps(4) Rows_scan_skip [of post "[]" 5 5] by (simp add: T5_def)
  have scan4: "Rows_scan T4 5 5 = Inr 5"
    unfolding T4_def by (simp only: Rows_scan_body [OF bodies(3)] Rows_scan_end scan5)
  have scan3: "Rows_scan T3 3 3 = Inr 5"
    unfolding T3_def
    by (simp add: Rows_scan_skip [OF gaps(3)] Rows_attrs_r [OF attrs(5,6) Atoi_5] scan4)
  have scan2: "Rows_scan T2 3 3 = Inr 5"
    unfolding T2_def by (simp only: Rows_scan_body [OF bodies(2)] Rows_scan_end scan3)
  have scan1: "Rows_scan T1 1 1 = Inr 5"
    unfolding T1_def
    by (simp add: Rows_scan_skip [OF gaps(2)] Rows_attrs_r [OF attrs(3,4) Atoi_3] scan2)
  have scan0: "Rows_scan T0 0 0 = Inr 5"
    unfolding T0_def
    by (simp add: Rows_scan_skip [OF gaps(1)] Rows_attrs_r [OF attrs(1,2) Atoi_1]
          Rows_scan_body [OF bodies(1)] scan1)
  have open0: "Rows_open T0 = Inr (R 0 0 T0)"
    by (simp add: Rows_open_def scan0 R_def)
  have c1: "Columns fv d ((R 0 0 T0)\<lparr>curRow := curRow (R 0 0 T0) + 1\<rparr>)
              = Inr (v1, None, R 1 0 T1)"
    by (simp add: Columns_def R_def T0_def Columns_loop_skip [OF gaps(1)]
          Columns_attrs_r [OF attrs(1,2) Atoi_1] Columns_loop_body [OF bodies(1) v1])
  have c2: "Columns fv d ((R 1 0 T1)\<lparr>curRow := curRow (R 1 0 T1) + 1\<rparr>)
              = Inr ([], None, R 2 2 T2)"
    by (simp add: Columns_def R_def T1_def Columns_loop_skip [OF gaps(2)]
          Columns_attrs_r [OF attrs(3,4) Atoi_3])
  have c3: "Columns fv d ((R 2 2 T2)\<lparr>curRow := curRow (R 2 2 T2) + 1\<rparr>)
              = Inr (v3, None, R 3 2 T3)"
    by (simp add: Columns_def R_def T2_def Columns_loop_body [OF bodies(2) v3])
  have c4: "Columns fv d ((R 3 2 T3)\<lparr>curRow := curRow (R 3 2 T3) + 1\<rparr>)
              = Inr ([], None, R 4 4 T4)"
    by (simp add: Columns_def R_def T3_def Columns_loop_skip [OF gaps(3)]
          Columns_attrs_r [OF attrs(5,6) Atoi_5])
  have c5: "Columns fv d ((R 4 4 T4)\<lparr>curRow := curRow (R 4 4 T4) + 1\<rparr>)
              = Inr (v5, None, R 5 4 T5)"
    by (simp add: Columns_def R_def T4_def Columns_loop_body [OF bodies(3) v5])
  have "GetRows_loop fv d (R 0 0 T0) [] = GetRows_loop fv d (R 1 0 T1) [v1]"
    using GetRows_loop_step [OF _ _ c1, of "[]"] by (simp add: R_def)
  also have "\<dots> = GetRows_loop fv d (R 2 2 T2) [v1, []]"
    using GetRows_loop_step [OF _ _ c2, of "[v1]"] by (simp add: R_def)
  also have "\<dots> = GetRows_loop fv d (R 3 2 T3) [v1, [], v3]"
    using GetRows_loop_step [OF _ _ c3, of "[v1, []]"] by (simp add: R_def)
  also have "\<dots> = GetRows_loop fv d (R 4 4 T4) [v1, [], v3, []]"
    using GetRows_loop_step [OF _ _ c4, of "[v1, [], v3]"] by (simp add: R_def)
  also have "\<dots> = GetRows_loop fv d (R 5 4 T5) [v1, [], v3, [], v5]"
    using GetRows_loop_step [OF _ _ c5, of "[v1, [], v3, []]"] by (simp add: R_def)
  also have "\<dots> = Inr [v1, [], v3, [], v5]"
    by (rule GetRows_loop_stop) (simp add: R_def)
  finally have "GetRows fv d T0 = Inr [v1, [], v3, [], v5]"
    by (simp add: GetRows_def open0)
  then show ?thesis
    by (simp add: T0_def T1_def T2_def T3_def T4_def T5_def)
qed

theorem C6_witness:
  "GetRows (\<lambda>s v. v) [''shared''] toks135 =
     Inr [[''10'', [], ''shared''], [], [[], ''x''], [], [''y'']]"
proof -
  let ?b1 = "[CellElement \<lparr>cR = ''A1'', cS = 0, cT = [], cV = ''10'', cIS = None\<rparr>,
              CellElement \<lparr>cR = ''C1'', cS = 0, cT = ''s'', cV = ''0'', cIS = None\<rparr>]"
  let ?b3 = "[CellElement \<lparr>cR = ''B3'', cS = 0, cT = ''str'', cV = ''x'', cIS = None\<rparr>]"
  let ?b5 = "[CellElement \<lparr>cR = ''A5'', cS = 0, cT = ''inlineStr'', cV = [],
                           cIS = Some ''y''\<rparr>]"
  have g: "noRowTokens [StartElement ''worksheet'' [], StartElement ''sheetData'' []]"
     "noRowTokens []" "noRowTokens [EndElement ''sheetData'', EndElement ''worksheet'']"
    by code_simp+
  have a: "noR []" "noR [(''spans'', ''1:3'')]" by code_simp+
  have b: "list_all insideRow ?b1" "list_all insideRow ?b3" "list_all insideRow ?b5"
    by simp_all
  have v1: "denseValues (\<lambda>s v. v) [''shared''] (cellsOf ?b1) []
      = Some [''10'', [], ''shared'']" by code_simp
  have v3: "denseValues (\<lambda>s v. v) [''shared''] (cellsOf ?b3) [] = Some [[], ''x'']"
    by code_simp
  have v5: "denseValues (\<lambda>s v. v) [''shared''] (cellsOf ?b5) [] = Some [''y'']"
    by code_simp
  show ?thesis
    using C6_GetRows_rows_1_3_5_in_order
            [OF g(1) g(2) g(2) g(3) a(1) a(2) a(1) a(1) a(1) a(1) b v1 v3 v5]
    by (simp add: toks135_def)
qed

text \<open>
  C6 fails where the three rows are not declared in ascending order, and where a cell
  reference does not parse: declared in the document order 5, 3, 1 the rows give one
  empty sequence, and with an unparsable reference in row 3 the result stops after
  two sequences.
\<close>

theorem C6_counterexample:
  "declaredRows toks531 = [5, 3, 1] \<and>
   GetRows (\<lambda>s v. v) [] toks531 = Inr [[]] \<and>
   declaredRows toksBadRef = [1, 3, 5] \<and>
   GetRows (\<lambda>s v. v) [] toksBadRef = Inr [[''one''], []]"
  by code_simp

subsection \<open>Removing a row\<close>

lemma indexOfRow_None:
  "(indexOfRow rs row = None) = (\<forall>x \<in> set rs. rR x \<noteq> row)"
  by (induction rs) auto

lemma indexOfRow_Some:
  "indexOfRow rs row = Some i \<Longrightarrow> i < length rs \<and> rR (rs ! i) = row"
proof (induction rs arbitrary: i)
  case Nil
  then show ?case by simp
next
  case (Cons r rs)
  then show ?case by (auto split: if_splits)
qed

lemma ajustSingleRowDimensions_sel:
  "rR (ajustSingleRowDimensions r num) = num"
  "map cV (rC (ajustSingleRowDimensions r num)) = map cV (rC r)"
  "map cS (rC (ajustSingleRowDimensions r num)) = map cS (rC r)"
  "length (rC (ajustSingleRowDimensions r num)) = length (rC r)"
  by (simp_all add: ajustSingleRowDimensions_def comp_def)

lemma shiftRow_values: "map cV (rC (shiftRow num offset r)) = map cV (rC r)"
  by (simp add: shiftRow_def ajustSingleRowDimensions_sel)

text \<open>
  C10. When \<open>1 \<le> r \<le> n\<close> for the \<open>n\<close> stored row records and no stored record is
  numbered \<open>r\<close>, \<open>RemoveRow\<close> returns nil and the worksheet is unchanged; the result
  does not depend on the shift \<open>adj\<close>, which is not called.
\<close>

theorem C10_RemoveRow_absent_row_unchanged:
  assumes "1 \<le> r" and "r \<le> int (length (Row xlsx))"
    and "\<forall>x \<in> set (Row xlsx). rR x \<noteq> r"
  shows "RemoveRow adj xlsx r = Inr xlsx"
proof -
  have "indexOfRow (Row xlsx) r = None" using assms(3) by (simp add: indexOfRow_None)
  then show ?thesis using assms(1,2) by (simp add: RemoveRow_def)
qed

theorem C10_witness:
  "(1::int) \<le> 2 \<and>
   2 \<le> int (length (Row \<lparr>Row = [emptyRow 1, emptyRow 3], MergeCells = None\<rparr>)) \<and>
   2 \<notin> rR ` set (Row \<lparr>Row = [emptyRow 1, emptyRow 3], MergeCells = None\<rparr>) \<and>
   RemoveRow (\<lambda>x num offset. Inl IndexOutOfRange)
     \<lparr>Row = [emptyRow 1, emptyRow 3], MergeCells = None\<rparr> 2
   = Inr \<lparr>Row = [emptyRow 1, emptyRow 3], MergeCells = None\<rparr>"
proof -
  have h1: "(1::int) \<le> 2" by simp
  have h2: "2 \<le> int (length (Row \<lparr>Row = [emptyRow 1, emptyRow 3], MergeCells = None\<rparr>))"
    by simp
  have h3: "\<forall>x \<in> set (Row \<lparr>Row = [emptyRow 1, emptyRow 3], MergeCells = None\<rparr>). rR x \<noteq> 2"
    by (simp add: emptyRow_def)
  show ?thesis
    using C10_RemoveRow_absent_row_unchanged [OF h1 h2 h3] h2 h3 by auto
qed

text \<open>
  C8. \<open>RemoveRow\<close> returns \<open>InvalidRowNumber\<close> for a row below 1. For a row beyond the
  stored records it returns what the shift by -1 at that row returns on the untouched
  worksheet (with the shift of the spec: the same number of records, with the same cell
  values). On five rows numbered 1 to 5, removing row 3 leaves exactly four records:
  rows 1 and 2, and the rows that were 4 and 5 renumbered 3 and 4.
\<close>

theorem C8_RemoveRow:
  "(row < 1 \<longrightarrow> RemoveRow adj xlsx row = Inl (InvalidRowNumber row)) \<and>
   (1 \<le> row \<and> row > int (length (Row xlsx)) \<longrightarrow>
      RemoveRow adj xlsx row = adj xlsx row (- 1) \<and>
      (\<exists>xlsx'. RemoveRow adjustHelper xlsx row = Inr xlsx' \<and>
         length (Row xlsx') = length (Row xlsx) \<and>
         map (\<lambda>r. map cV (rC r)) (Row xlsx') = map (\<lambda>r. map cV (rC r)) (Row xlsx))) \<and>
   (Row xlsx = [r1, r2, r3, r4, r5] \<and>
    rR r1 = 1 \<and> rR r2 = 2 \<and> rR r3 = 3 \<and> rR r4 = 4 \<and> rR r5 = 5 \<longrightarrow>
      (\<exists>xlsx'. RemoveRow adjustHelper xlsx 3 = Inr xlsx' \<and>
         length (Row xlsx') = 4 \<and>
         Row xlsx' = [r1, r2, ajustSingleRowDimensions r4 3, ajustSingleRowDimensions r5 4] \<and>
         map rR (Row xlsx') = [1, 2, 3, 4]))"
proof (intro conjI impI)
  assume "row < 1"
  then show "RemoveRow adj xlsx row = Inl (InvalidRowNumber row)"
    by (simp add: RemoveRow_def)
next
  assume a: "1 \<le> row \<and> row > int (length (Row xlsx))"
  then show "RemoveRow adj xlsx row = adj xlsx row (- 1)"
    by (simp add: RemoveRow_def)
  from a have "RemoveRow adjustHelper xlsx row = adjustHelper xlsx row (- 1)"
    by (simp add: RemoveRow_def)
  then show "\<exists>xlsx'. RemoveRow adjustHelper xlsx row = Inr xlsx' \<and>
         length (Row xlsx') = length (Row xlsx) \<and>
         map (\<lambda>r. map cV (rC r)) (Row xlsx') = map (\<lambda>r. map cV (rC r)) (Row xlsx)"
    by (simp add: adjustHelper_def comp_def shiftRow_values)
next
  assume a: "Row xlsx = [r1, r2, r3, r4, r5] \<and>
    rR r1 = 1 \<and> rR r2 = 2 \<and> rR r3 = 3 \<and> rR r4 = 4 \<and> rR r5 = 5"
  then have idx: "indexOfRow (Row xlsx) 3 = Some 2" by simp
  have "RemoveRow adjustHelper xlsx 3 =
          adjustHelper (xlsx\<lparr>Row := [r1, r2, r4, r5]\<rparr>) 3 (- 1)"
    using a idx by (simp add: RemoveRow_def)
  also have "\<dots> = Inr (xlsx\<lparr>Row := [r1, r2, ajustSingleRowDimensions r4 3,
                                       ajustSingleRowDimensions r5 4],
                     MergeCells := map_option (map (shiftRef 3 (- 1))) (MergeCells xlsx)\<rparr>)"
    using a by (simp add: adjustHelper_def shiftRow_def)
  finally show "\<exists>xlsx'. RemoveRow adjustHelper xlsx 3 = Inr xlsx' \<and>
         length (Row xlsx') = 4 \<and>
         Row xlsx' = [r1, r2, ajustSingleRowDimensions r4 3, ajustSingleRowDimensions r5 4] \<and>
         map rR (Row xlsx') = [1, 2, 3, 4]"
    using a by (simp add: ajustSingleRowDimensions_sel)
qed

theorem C8_witness:
  "RemoveRow adjustHelper sheet5 0 = Inl (InvalidRowNumber 0) \<and>
   RemoveRow adjustHelper sheet5 9 = adjustHelper sheet5 9 (- 1) \<and>
   RemoveRow adjustHelper sheet5 9 = Inr sheet5 \<and>
   (\<exists>xlsx'. RemoveRow adjustHelper sheet5 3 = Inr xlsx' \<and>
      length (Row xlsx') = 4 \<and>
      Row xlsx' = [row5 1 ''A1'' ''a'', row5 2 ''A2'' ''b'',
                   row5 3 ''B3'' ''d'', row5 4 ''C4'' ''e''])"
proof -
  have rows: "Row sheet5 = [row5 1 ''A1'' ''a'', row5 2 ''A2'' ''b'', row5 3 ''A3'' ''c'',
             row5 4 ''B4'' ''d'', row5 5 ''C5'' ''e''] \<and>
     rR (row5 1 ''A1'' ''a'') = 1 \<and> rR (row5 2 ''A2'' ''b'') = 2 \<and>
     rR (row5 3 ''A3'' ''c'') = 3 \<and> rR (row5 4 ''B4'' ''d'') = 4 \<and>
     rR (row5 5 ''C5'' ''e'') = 5"
    by (simp add: sheet5_def row5_def)
  have len: "length (Row sheet5) = 5" by (simp add: sheet5_def)
  have a4: "ajustSingleRowDimensions (row5 4 ''B4'' ''d'') 3 = row5 3 ''B3'' ''d''"
    by code_simp
  have a5: "ajustSingleRowDimensions (row5 5 ''C5'' ''e'') 4 = row5 4 ''C4'' ''e''"
    by code_simp
  have same: "adjustHelper sheet5 9 (- 1) = Inr sheet5" by code_simp
  have p1: "RemoveRow adjustHelper sheet5 0 = Inl (InvalidRowNumber 0)"
    using C8_RemoveRow [of 0 adjustHelper sheet5] by simp
  have p2: "RemoveRow adjustHelper sheet5 9 = adjustHelper sheet5 9 (- 1)"
    using C8_RemoveRow [of 9 adjustHelper sheet5] len by simp
  have p3: "\<exists>xlsx'. RemoveRow adjustHelper sheet5 3 = Inr xlsx' \<and>
      length (Row xlsx') = 4 \<and>
      Row xlsx' = [row5 1 ''A1'' ''a'', row5 2 ''A2'' ''b'',
                   row5 3 ''B3'' ''d'', row5 4 ''C4'' ''e'']"
    using C8_RemoveRow [of 3 adjustHelper sheet5 "row5 1 ''A1'' ''a''" "row5 2 ''A2'' ''b''"
            "row5 3 ''A3'' ''c''" "row5 4 ''B4'' ''d''" "row5 5 ''C5'' ''e''"] rows
    unfolding a4 a5 by blast
  show ?thesis using p1 p2 p3 same by simp
qed

subsection \<open>The coordinate codec is a round trip\<close>

lemma upper_nth:
  assumes "k < 26"
  shows "(of_char (''ABCDEFGHIJKLMNOPQRSTUVWXYZ'' ! k) :: nat) = 65 + k"
proof -
  have "k = 0 \<or> k = 1 \<or> k = 2 \<or> k = 3 \<or> k = 4 \<or> k = 5 \<or> k = 6 \<or> k = 7 \<or> k = 8 \<or> k = 9 \<or> k = 10 \<or> k = 11 \<or> k = 12 \<or> k = 13 \<or> k = 14 \<or> k = 15 \<or> k = 16 \<or> k = 17 \<or> k = 18 \<or> k = 19 \<or> k = 20 \<or> k = 21 \<or> k = 22 \<or> k = 23 \<or> k = 24 \<or> k = 25"
    using assms by arith
  then show ?thesis by (elim disjE) simp_all
qed

lemma digit_nth:
  assumes "k < 10"
  shows "(of_char (''0123456789'' ! k) :: nat) = 48 + k"
proof -
  have "k = 0 \<or> k = 1 \<or> k = 2 \<or> k = 3 \<or> k = 4 \<or> k = 5 \<or> k = 6 \<or> k = 7 \<or> k = 8 \<or> k = 9"
    using assms by arith
  then show ?thesis by (elim disjE) simp_all
qed

lemma ColumnNumberToName_upper: "list_all isUpper (ColumnNumberToName n)"
proof (induction n rule: ColumnNumberToName.induct)
  case (1 n)
  show ?case
  proof (cases "n = 0")
    case True
    then show ?thesis by (simp add: ColumnNumberToName.simps)
  next
    case False
    have "(n - 1) mod 26 < 26" by simp
    from upper_nth [OF this]
    have "isUpper (''ABCDEFGHIJKLMNOPQRSTUVWXYZ'' ! ((n - 1) mod 26))"
      by (simp add: isUpper_def)
    then show ?thesis
      using 1 False by (subst ColumnNumberToName.simps) simp
  qed
qed

lemma ColumnNumberToName_nonempty: "0 < n \<Longrightarrow> ColumnNumberToName n \<noteq> []"
  by (subst ColumnNumberToName.simps) simp

lemma ColumnNameToNumber_inverse: "ColumnNameToNumber (ColumnNumberToName n) = n"
proof (induction n rule: ColumnNumberToName.induct)
  case (1 n)
  show ?case
  proof (cases "n = 0")
    case True
    then show ?thesis by (simp add: ColumnNumberToName.simps ColumnNameToNumber_def)
  next
    case False
    have m: "(n - 1) mod 26 < 26" by simp
    have ih: "ColumnNameToNumber (ColumnNumberToName ((n - 1) div 26)) = (n - 1) div 26"
      using 1 False by simp
    have "ColumnNameToNumber (ColumnNumberToName n) =
            ColumnNameToNumber (ColumnNumberToName ((n - 1) div 26)) * 26 +
            (of_char (''ABCDEFGHIJKLMNOPQRSTUVWXYZ'' ! ((n - 1) mod 26)) - 64)"
      using False by (subst ColumnNumberToName.simps) (simp add: ColumnNameToNumber_def)
    also have "\<dots> = (n - 1) div 26 * 26 + ((n - 1) mod 26 + 1)"
      unfolding ih upper_nth [OF m] by simp
    also have "\<dots> = n" using False by simp
    finally show ?thesis .
  qed
qed

lemma Itoa_digits: "list_all isDigit (Itoa n)"
proof (induction n rule: Itoa.induct)
  case (1 n)
  have "n mod 10 < 10" by simp
  from digit_nth [OF this] have d: "isDigit (''0123456789'' ! (n mod 10))"
    by (simp add: isDigit_def)
  show ?case
  proof (cases "n < 10")
    case True
    then show ?thesis using d by (subst Itoa.simps) simp
  next
    case False
    then show ?thesis using 1 d by (subst Itoa.simps) simp
  qed
qed

lemma Itoa_nonempty: "Itoa n \<noteq> []"
  by (subst Itoa.simps) simp

lemma digitsToNat_inverse: "digitsToNat (Itoa n) = n"
proof (induction n rule: Itoa.induct)
  case (1 n)
  show ?case
  proof (cases "n < 10")
    case True
    then show ?thesis
      using digit_nth [OF True] by (subst Itoa.simps) (simp add: digitsToNat_def)
  next
    case False
    have m: "n mod 10 < 10" by simp
    have ih: "digitsToNat (Itoa (n div 10)) = n div 10" using 1 False by simp
    have "digitsToNat (Itoa n) =
            digitsToNat (Itoa (n div 10)) * 10 + (of_char (''0123456789'' ! (n mod 10)) - 48)"
      using False by (subst Itoa.simps) (simp add: digitsToNat_def)
    also have "\<dots> = n div 10 * 10 + n mod 10"
      unfolding ih digit_nth [OF m] by simp
    also have "\<dots> = n" by simp
    finally show ?thesis .
  qed
qed

lemma digit_not_upper: "isDigit c \<Longrightarrow> \<not> isUpper c"
  by (simp add: isDigit_def isUpper_def)

lemma split_name:
  "takeWhile isUpper (ColumnNumberToName c @ Itoa r) = ColumnNumberToName c \<and>
   dropWhile isUpper (ColumnNumberToName c @ Itoa r) = Itoa r"
proof -
  have u: "\<forall>x \<in> set (ColumnNumberToName c). isUpper x"
    using ColumnNumberToName_upper [of c] by (simp add: list_all_iff)
  obtain d ds where ds: "Itoa r = d # ds" using Itoa_nonempty [of r] by (cases "Itoa r") auto
  have "isDigit d" using Itoa_digits [of r] ds by simp
  then have nd: "\<not> isUpper d" by (rule digit_not_upper)
  show ?thesis
    unfolding ds using u nd
    by (simp add: takeWhile_append2 dropWhile_append2)
qed

lemma CellName_roundtrip:
  assumes "1 \<le> col" "1 \<le> row"
  shows "\<exists>name. CoordinatesToCellName col row = Inr name \<and>
                CellNameToCoordinates name = Inr (col, row)"
proof -
  let ?n = "ColumnNumberToName (nat col) @ Itoa (nat row)"
  have 1: "CoordinatesToCellName col row = Inr ?n"
    using assms by (simp add: CoordinatesToCellName_def)
  have "CellNameToCoordinates ?n = Inr (col, row)"
    using assms split_name [of "nat col" "nat row"]
      ColumnNumberToName_nonempty [of "nat col"] Itoa_nonempty [of "nat row"]
      Itoa_digits [of "nat row"]
    by (simp add: CellNameToCoordinates_def Let_def ColumnNameToNumber_inverse
          digitsToNat_inverse)
  with 1 show ?thesis by blast
qed

lemma ColumnNameToNumber_pos:
  "\<forall>c \<in> set ls. isUpper c \<Longrightarrow> ls \<noteq> [] \<or> 0 < a \<Longrightarrow>
   0 < foldl (\<lambda>a c. a * 26 + (of_char c - 64)) (a::nat) ls"
proof (induction ls arbitrary: a)
  case Nil
  then show ?case by simp
next
  case (Cons c ls)
  have "isUpper c" using Cons.prems(1) by simp
  then have "0 < a * 26 + ((of_char c :: nat) - 64)" by (simp add: isUpper_def)
  then show ?case using Cons.IH [of "a * 26 + (of_char c - 64)"] Cons.prems(1) by simp
qed

lemma CellNameToCoordinates_pos:
  assumes "CellNameToCoordinates cell = Inr (col, row)"
  shows "1 \<le> col \<and> 1 \<le> row"
proof -
  let ?ls = "takeWhile isUpper cell"
  from assms have ne: "?ls \<noteq> []" and r: "1 \<le> digitsToNat (dropWhile isUpper cell)"
    and c: "col = int (ColumnNameToNumber ?ls)"
    and r': "row = int (digitsToNat (dropWhile isUpper cell))"
    by (auto simp: CellNameToCoordinates_def Let_def split: if_splits)
  have "\<forall>c \<in> set ?ls. isUpper c" by (auto dest: set_takeWhileD)
  from ColumnNameToNumber_pos [OF this, of 0] ne
  have "0 < ColumnNameToNumber ?ls" by (simp add: ColumnNameToNumber_def)
  then show ?thesis using c r r' by simp
qed

lemma areaRefToCoordinates_pos:
  "areaRefToCoordinates ref = Inr (x1, y1, x2, y2) \<Longrightarrow> 1 \<le> x1 \<and> 1 \<le> x2"
  by (auto simp: areaRefToCoordinates_def Let_def split: if_splits sum.splits prod.splits
           dest: CellNameToCoordinates_pos)

lemma colon_not_name:
  "\<not> isUpper (CHR '':'')" "\<not> isDigit (CHR '':'')"
  by (simp_all add: isUpper_def isDigit_def)

lemma name_no_colon:
  assumes "CoordinatesToCellName col row = Inr name"
  shows "\<forall>c \<in> set name. c \<noteq> CHR '':''"
proof -
  from assms have n: "name = ColumnNumberToName (nat col) @ Itoa (nat row)"
    by (auto simp: CoordinatesToCellName_def split: if_splits)
  have "\<forall>c \<in> set (ColumnNumberToName (nat col)). isUpper c"
    using ColumnNumberToName_upper [of "nat col"] by (simp add: list_all_iff)
  moreover have "\<forall>c \<in> set (Itoa (nat row)). isDigit c"
    using Itoa_digits [of "nat row"] by (simp add: list_all_iff)
  ultimately show ?thesis unfolding n using colon_not_name by auto
qed

lemma areaRef_roundtrip:
  assumes "1 \<le> x1" "1 \<le> x2" "1 \<le> row2"
  shows "areaRefToCoordinates
           (nameOrEmpty (CoordinatesToCellName x1 row2) @ '':'' @
            nameOrEmpty (CoordinatesToCellName x2 row2)) = Inr (x1, row2, x2, row2)"
proof -
  from CellName_roundtrip [OF assms(1,3)] obtain n1 where
    n1: "CoordinatesToCellName x1 row2 = Inr n1"
    and d1: "CellNameToCoordinates n1 = Inr (x1, row2)" by blast
  from CellName_roundtrip [OF assms(2,3)] obtain n2 where
    n2: "CoordinatesToCellName x2 row2 = Inr n2"
    and d2: "CellNameToCoordinates n2 = Inr (x2, row2)" by blast
  have nc: "\<forall>c \<in> set n1. c \<noteq> CHR '':''" using name_no_colon [OF n1] .
  have t: "takeWhile (\<lambda>c. c \<noteq> CHR '':'') (n1 @ CHR '':'' # n2) = n1"
    using nc by (simp add: takeWhile_append2)
  have dr: "dropWhile (\<lambda>c. c \<noteq> CHR '':'') (n1 @ CHR '':'' # n2) = CHR '':'' # n2"
    using nc by (simp add: dropWhile_append2)
  show ?thesis
    by (simp add: n1 n2 nameOrEmpty_def areaRefToCoordinates_def Let_def t dr d1 d2)
qed

lemma dupRef_offRow:
  assumes "onRow row ref" "row \<noteq> row2" "1 \<le> row2"
  shows "offRow row (dupRef row2 ref)"
proof -
  from assms(1) obtain x1 x2 where p: "areaRefToCoordinates ref = Inr (x1, row, x2, row)"
    by (auto simp: onRow_def split: sum.splits)
  from areaRefToCoordinates_pos [OF p] have "1 \<le> x1" "1 \<le> x2" by simp_all
  from areaRef_roundtrip [OF this assms(3)] show ?thesis
    using p assms(2) by (simp add: offRow_def dupRef_def)
qed

lemma dupRef_names:
  assumes "onRow row ref" "1 \<le> row2"
  shows "\<exists>x1 x2. areaRefToCoordinates ref = Inr (x1, row, x2, row) \<and>
           nameOrEmpty (CoordinatesToCellName x1 row2) \<noteq> [] \<and>
           nameOrEmpty (CoordinatesToCellName x2 row2) \<noteq> []"
proof -
  from assms(1) obtain x1 x2 where p: "areaRefToCoordinates ref = Inr (x1, row, x2, row)"
    by (auto simp: onRow_def split: sum.splits)
  from areaRefToCoordinates_pos [OF p] have x: "1 \<le> x1" "1 \<le> x2" by simp_all
  have "nameOrEmpty (CoordinatesToCellName x1 row2) \<noteq> []"
    using x(1) assms(2) Itoa_nonempty by (simp add: CoordinatesToCellName_def nameOrEmpty_def)
  moreover have "nameOrEmpty (CoordinatesToCellName x2 row2) \<noteq> []"
    using x(2) assms(2) Itoa_nonempty by (simp add: CoordinatesToCellName_def nameOrEmpty_def)
  ultimately show ?thesis using p by blast
qed

subsection \<open>The merge repair\<close>

lemma dmc_loop_match:
  assumes "i < length cells" "onRow row (cells ! i)" "1 \<le> row2"
  shows "dmc_loop cells row row2 i =
         dmc_loop (cells @ [dupRef row2 (cells ! i)]) row row2 (i + 2)"
proof -
  from dupRef_names [OF assms(2,3)] obtain x1 x2 where
    p: "areaRefToCoordinates (cells ! i) = Inr (x1, row, x2, row)"
    and n: "nameOrEmpty (CoordinatesToCellName x1 row2) \<noteq> []"
           "nameOrEmpty (CoordinatesToCellName x2 row2) \<noteq> []" by blast
  show ?thesis
    using assms(1) p n
    by (subst dmc_loop.simps) (simp add: MergeCell_def dupRef_def)
qed

lemma dmc_loop_nomatch:
  assumes "i < length cells" "offRow row (cells ! i)"
  shows "dmc_loop cells row row2 i = dmc_loop cells row row2 (i + 1)"
  using assms
  by (subst dmc_loop.simps) (auto simp: offRow_def split: sum.splits)

lemma dmc_loop_end:
  "length cells \<le> i \<Longrightarrow> dmc_loop cells row row2 i = Inr cells"
  by (subst dmc_loop.simps) simp

lemma dmc_loop_skip:
  assumes "\<forall>k. i \<le> k \<and> k < i + n \<longrightarrow> offRow row (cells ! k)" "i + n \<le> length cells"
  shows "dmc_loop cells row row2 i = dmc_loop cells row row2 (i + n)"
  using assms
proof (induction n arbitrary: i)
  case 0
  then show ?case by simp
next
  case (Suc n)
  have "offRow row (cells ! i)" using Suc.prems(1) by simp
  moreover have "i < length cells" using Suc.prems(2) by simp
  ultimately have "dmc_loop cells row row2 i = dmc_loop cells row row2 (i + 1)"
    by (rule dmc_loop_nomatch [rotated])
  also have "\<dots> = dmc_loop cells row row2 (i + 1 + n)"
    using Suc.prems by (intro Suc.IH) auto
  finally show ?case by simp
qed

lemma dmc_loop_rest_off:
  assumes "list_all (offRow row) acc"
  shows "dmc_loop (pre @ acc) row row2 (length pre + m) = Inr (pre @ acc)"
proof (cases "length acc \<le> m")
  case True
  then show ?thesis by (intro dmc_loop_end) simp
next
  case False
  have "\<forall>k. length pre + m \<le> k \<and> k < length pre + m + (length acc - m) \<longrightarrow>
           offRow row ((pre @ acc) ! k)"
  proof (intro allI impI)
    fix k assume k: "length pre + m \<le> k \<and> k < length pre + m + (length acc - m)"
    then have "(pre @ acc) ! k = acc ! (k - length pre)" by (simp add: nth_append)
    moreover have "k - length pre < length acc" using k False by auto
    ultimately show "offRow row ((pre @ acc) ! k)"
      using assms by (simp add: list_all_length)
  qed
  then have "dmc_loop (pre @ acc) row row2 (length pre + m) =
             dmc_loop (pre @ acc) row row2 (length pre + m + (length acc - m))"
    by (rule dmc_loop_skip) (use False in simp)
  also have "\<dots> = Inr (pre @ acc)" by (intro dmc_loop_end) (use False in simp)
  finally show ?thesis .
qed

lemma dmc_loop_walk:
  assumes "list_all (\<lambda>r. onRow row r \<or> offRow row r) xs" "list_all (offRow row) acc"
    and "row \<noteq> row2" "1 \<le> row2"
  shows "dmc_loop (pre @ xs @ acc) row row2 (length pre) =
         Inr (pre @ xs @ acc @ duplicates row row2 xs)"
  using assms
proof (induction row row2 xs arbitrary: pre acc rule: duplicates.induct)
  case (1 row row2)
  then show ?case using dmc_loop_rest_off [of row acc pre row2 0] by simp
next
  case (2 row row2 a)
  show ?case
  proof (cases "onRow row a")
    case True
    have i: "length pre < length (pre @ [a] @ acc)" by simp
    have m: "onRow row ((pre @ [a] @ acc) ! length pre)" using True by simp
    have off: "list_all (offRow row) (acc @ [dupRef row2 a])"
      using "2.prems"(2) dupRef_offRow [OF True "2.prems"(3,4)] by simp
    have "dmc_loop (pre @ [a] @ acc) row row2 (length pre) =
          dmc_loop ((pre @ [a]) @ (acc @ [dupRef row2 a])) row row2 (length (pre @ [a]) + 1)"
      using dmc_loop_match [OF i m "2.prems"(4)] by simp
    also have "\<dots> = Inr ((pre @ [a]) @ (acc @ [dupRef row2 a]))"
      by (rule dmc_loop_rest_off [OF off])
    finally show ?thesis using True by simp
  next
    case False
    then have o: "offRow row a" using "2.prems"(1) by simp
    have i: "length pre < length (pre @ [a] @ acc)" by simp
    have m: "offRow row ((pre @ [a] @ acc) ! length pre)" using o by simp
    have "dmc_loop (pre @ [a] @ acc) row row2 (length pre) =
          dmc_loop ((pre @ [a]) @ acc) row row2 (length (pre @ [a]) + 0)"
      using dmc_loop_nomatch [OF i m] by simp
    also have "\<dots> = Inr ((pre @ [a]) @ acc)"
      by (rule dmc_loop_rest_off [OF "2.prems"(2)])
    finally show ?thesis using False by simp
  qed
next
  case (3 row row2 a b rest)
  let ?cells = "pre @ (a # b # rest) @ acc"
  have i: "length pre < length ?cells" by simp
  show ?case
  proof (cases "onRow row a")
    case True
    have m: "onRow row (?cells ! length pre)" using True by simp
    have off: "list_all (offRow row) (acc @ [dupRef row2 a])"
      using "3.prems"(2) dupRef_offRow [OF True "3.prems"(3,4)] by simp
    have rest: "list_all (\<lambda>r. onRow row r \<or> offRow row r) rest"
      using "3.prems"(1) by simp
    have "dmc_loop ?cells row row2 (length pre) =
          dmc_loop ((pre @ [a, b]) @ rest @ (acc @ [dupRef row2 a])) row row2
            (length (pre @ [a, b]))"
      using dmc_loop_match [OF i m "3.prems"(4)] by simp
    also have "\<dots> = Inr ((pre @ [a, b]) @ rest @ (acc @ [dupRef row2 a]) @
                         duplicates row row2 rest)"
      by (rule "3.IH"(1) [OF True rest off "3.prems"(3,4)])
    finally show ?thesis using True by simp
  next
    case False
    then have o: "offRow row a" using "3.prems"(1) by simp
    have m: "offRow row (?cells ! length pre)" using o by simp
    have rest: "list_all (\<lambda>r. onRow row r \<or> offRow row r) (b # rest)"
      using "3.prems"(1) by simp
    have "dmc_loop ?cells row row2 (length pre) =
          dmc_loop ((pre @ [a]) @ (b # rest) @ acc) row row2 (length (pre @ [a]))"
      using dmc_loop_nomatch [OF i m] by simp
    also have "\<dots> = Inr ((pre @ [a]) @ (b # rest) @ acc @ duplicates row row2 (b # rest))"
      by (rule "3.IH"(2) [OF False rest "3.prems"(2,3,4)])
    finally show ?thesis using False by simp
  qed
qed

lemma parsed_on_or_off:
  "areaRefToCoordinates r = Inr c \<Longrightarrow> onRow row r \<or> offRow row r"
  by (cases c) (auto simp: onRow_def offRow_def)

lemma straddles_False_parse:
  "straddles cells row2 = Inr False \<Longrightarrow> list_all (\<lambda>r. onRow row r \<or> offRow row r) cells"
proof (induction cells)
  case Nil
  then show ?case by simp
next
  case (Cons c cells)
  from Cons.prems obtain co where p: "areaRefToCoordinates c = Inr co"
    and rest: "straddles cells row2 = Inr False"
    by (auto split: sum.splits prod.splits if_splits)
  show ?case using parsed_on_or_off [OF p] Cons.IH [OF rest] by simp
qed

text \<open>
  C9, as the code has it. With \<open>row \<noteq> row2\<close> and \<open>row2 \<ge> 1\<close>, which
  \<open>DuplicateRowTo\<close> has checked before the repair, the merge repair fails when a
  region does not parse, adds nothing when a region has \<open>row2\<close> strictly inside its
  rows, and otherwise adds exactly \<open>duplicates\<close> of the list: walking the list from its
  first entry, every entry it examines that is a single-row region on the (adjusted)
  source row gets a duplicate at \<open>row2\<close>, the entry right after it is skipped without
  being examined, and the walk goes on with the entry after that.
\<close>

theorem C9_merge_repair_walk:
  assumes "MergeCells xlsx = Some cells" and "row \<noteq> row2" and "1 \<le> row2"
  shows "duplicateMergeCells xlsx row row2 =
     (case straddles cells row2 of
        Inl e \<Rightarrow> Inl e
      | Inr True \<Rightarrow> Inr xlsx
      | Inr False \<Rightarrow>
          Inr (xlsx\<lparr>MergeCells :=
                 Some (cells @ duplicates (if row > row2 then row + 1 else row) row2 cells)\<rparr>))"
proof (cases "straddles cells row2")
  case (Inl e)
  then show ?thesis using assms(1) by (simp add: duplicateMergeCells_def)
next
  case (Inr b)
  show ?thesis
  proof (cases b)
    case True
    then show ?thesis using Inr assms(1) by (simp add: duplicateMergeCells_def)
  next
    case False
    let ?row = "if row > row2 then row + 1 else row"
    have ne: "?row \<noteq> row2" using assms(2) by auto
    have p: "list_all (\<lambda>r. onRow ?row r \<or> offRow ?row r) cells"
      using Inr False by (intro straddles_False_parse) simp
    have "dmc_loop ([] @ cells @ []) ?row row2 (length ([] :: string list)) =
          Inr ([] @ cells @ [] @ duplicates ?row row2 cells)"
      by (rule dmc_loop_walk [OF p _ ne assms(3)]) simp
    then show ?thesis using Inr False assms(1) by (simp add: duplicateMergeCells_def)
  qed
qed

theorem C9_witness:
  "duplicateMergeCells
     \<lparr>Row = [], MergeCells = Some [''A1:B1'', ''A2:B2'', ''C2:D2'', ''G2:H2'', ''E3:E4'']\<rparr> 2 7
   = Inr \<lparr>Row = [], MergeCells =
       Some [''A1:B1'', ''A2:B2'', ''C2:D2'', ''G2:H2'', ''E3:E4'', ''A7:B7'', ''G7:H7'']\<rparr>"
proof -
  let ?cells = "[''A1:B1'', ''A2:B2'', ''C2:D2'', ''G2:H2'', ''E3:E4'']"
  have c: "MergeCells \<lparr>Row = [], MergeCells = Some ?cells\<rparr> = Some ?cells" by simp
  have s: "straddles ?cells 7 = Inr False" by code_simp
  have d: "duplicates (if (2::int) > 7 then 2 + 1 else 2) 7 ?cells = [''A7:B7'', ''G7:H7'']"
    by code_simp
  have ne: "(2::int) \<noteq> 7" and r2: "(1::int) \<le> 7" by simp_all
  show ?thesis
    using C9_merge_repair_walk [OF c ne r2] unfolding s d by simp
qed

text \<open>
  C9 fails for the second and third of three single-row regions on the source row: the
  two are consecutive, and it is the second of them that gets the duplicate, because
  the first of them is the entry skipped after the duplicate of the region before it.
\<close>

theorem C9_counterexample:
  "onRow 2 ''C2:D2'' \<and> onRow 2 ''E2:F2'' \<and>
   dupRef 7 ''C2:D2'' = ''C7:D7'' \<and> dupRef 7 ''E2:F2'' = ''E7:F7'' \<and>
   duplicateMergeCells \<lparr>Row = [], MergeCells = Some [''A2:B2'', ''C2:D2'', ''E2:F2'']\<rparr> 2 7
   = Inr \<lparr>Row = [], MergeCells =
       Some [''A2:B2'', ''C2:D2'', ''E2:F2'', ''A7:B7'', ''E7:F7'']\<rparr>"
  by code_simp


subsection \<open>Duplicating a row\<close>

text \<open>
  The shift of the spec on a store that holds the rows 1 to \<open>n\<close> in order: after the
  shift by +1 at a row of the store, it holds the rows 1 to \<open>n + 1\<close> in order, the
  vacated slot at the pivot included.
\<close>

lemma makeRoom_append:
  "\<forall>r \<in> set xs. rR r \<le> num \<Longrightarrow> makeRoom num (xs @ ys) = xs @ makeRoom num ys"
  by (induction xs) auto

lemma rR_shiftRow:
  "1 \<le> num \<Longrightarrow> rR (shiftRow num 1 r) = (if rR r \<ge> num then rR r + 1 else rR r)"
  by (auto simp: shiftRow_def ajustSingleRowDimensions_sel)

lemma adjustHelper_keeps_dense:
  assumes dense: "map rR (Row xlsx) = map int [1 ..< Suc n]"
    and num: "1 \<le> num" "num \<le> int n"
  shows "\<exists>xlsx'. adjustHelper xlsx num 1 = Inr xlsx' \<and>
           map rR (Row xlsx') = map int [1 ..< Suc (Suc n)]"
proof -
  define m where "m = nat num - 1"
  define rows where "rows = map (shiftRow num 1) (Row xlsx)"
  have len: "length (Row xlsx) = n" using dense by (metis length_map length_upt diff_Suc_1)
  have nth: "\<And>k. k < n \<Longrightarrow> rR (Row xlsx ! k) = int k + 1"
  proof -
    fix k assume k: "k < n"
    then have "map rR (Row xlsx) ! k = map int [1 ..< Suc n] ! k" using dense by simp
    then show "rR (Row xlsx ! k) = int k + 1" using k len by (simp del: upt_Suc)
  qed
  have m: "m < n" "int m + 1 = num" using num by (auto simp: m_def)
  have rlen: "length rows = n" using len by (simp add: rows_def)
  have rnth: "\<And>k. k < n \<Longrightarrow> rR (rows ! k) = (if k < m then int k + 1 else int k + 2)"
    using nth len m num by (auto simp: rows_def rR_shiftRow)
  have reach: "reachesRow (Row xlsx) num" using len num by (simp add: reachesRow_def)
  have split: "rows = take m rows @ drop m rows" by simp
  have low: "\<forall>r \<in> set (take m rows). rR r \<le> num"
  proof
    fix r assume "r \<in> set (take m rows)"
    then obtain k where k: "k < m" "take m rows ! k = r"
      using m rlen by (auto simp: in_set_conv_nth)
    then have "rR r = int k + 1" using rnth [of k] m by simp
    then show "rR r \<le> num" using k m by simp
  qed
  obtain y ys where ys: "drop m rows = y # ys"
    using m rlen by (cases "drop m rows") auto
  have "y = rows ! m" using ys m rlen by (metis nth_via_drop)
  then have "rR y > num" using rnth [of m] m by simp
  then have "makeRoom num (drop m rows) = emptyRow num # drop m rows"
    unfolding ys by simp
  then have mk: "makeRoom num rows = take m rows @ emptyRow num # drop m rows"
    using makeRoom_append [OF low, of "drop m rows"] by simp
  have "map rR (makeRoom num rows) = map int [1 ..< Suc (Suc n)]"
  proof (rule nth_equalityI)
    show "length (map rR (makeRoom num rows)) = length (map int [1 ..< Suc (Suc n)])"
      unfolding mk using rlen m by (simp del: upt_Suc)
  next
    fix k assume "k < length (map rR (makeRoom num rows))"
    then have k: "k < Suc n" unfolding mk using rlen m by (simp del: upt_Suc)
    have "rR ((take m rows @ emptyRow num # drop m rows) ! k) = int k + 1"
    proof (cases "k < m")
      case True
      then show ?thesis using rnth [of k] m rlen by (simp add: nth_append)
    next
      case False
      show ?thesis
      proof (cases "k = m")
        case True
        then show ?thesis using m rlen by (simp add: nth_append emptyRow_def)
      next
        case False
        with \<open>\<not> k < m\<close> have g: "m < k" by simp
        then have "(take m rows @ emptyRow num # drop m rows) ! k = rows ! (k - 1)"
          using rlen m k by (simp add: nth_append nth_Cons')
        then show ?thesis using rnth [of "k - 1"] g k by auto
      qed
    qed
    moreover have "k < length (take m rows @ emptyRow num # drop m rows)"
      using k rlen m by simp
    ultimately have "map rR (take m rows @ emptyRow num # drop m rows) ! k = int k + 1"
      by (simp only: nth_map)
    moreover have "map int [1 ..< Suc (Suc n)] ! k = int k + 1"
      using k by (simp del: upt_Suc)
    ultimately show "map rR (makeRoom num rows) ! k = map int [1 ..< Suc (Suc n)] ! k"
      unfolding mk by simp
  qed
  then show ?thesis using reach by (simp add: adjustHelper_def rows_def)
qed


text \<open>
  The two examples of the spec for the merge repair, on a sheet of two rows with the
  shift of the spec: duplicating row 2 to row 7 with the merge C2:D2 creates C7:D7, and
  creates nothing when another region (A5:A9, A5:A10 after the shift) has row 7
  strictly inside its rows.
\<close>

lemma DuplicateRowTo_single_merge:
  "DuplicateRowTo adjustHelper (sheet2 [''C2:D2'']) 2 7 =
     Inr \<lparr>Row = Row (sheet2 []) @ [row7copy], MergeCells = Some [''C2:D2'', ''C7:D7'']\<rparr>"
  by code_simp

lemma DuplicateRowTo_straddled:
  "DuplicateRowTo adjustHelper (sheet2 [''C2:D2'', ''A5:A9'']) 2 7 =
     Inr \<lparr>Row = Row (sheet2 []) @ [row7copy], MergeCells = Some [''C2:D2'', ''A5:A10'']\<rparr>"
  by code_simp

text \<open>
  C4 with two single-row regions next to each other on the source row. The claim gives
  every single-row region of the source row an equivalent region on the destination
  row; \<open>DuplicateRowTo\<close> of row 2 to row 7 with the regions A2:B2 and C2:D2 creates
  A7:B7 and no C7:D7, although no region has row 7 inside its rows.
\<close>

theorem C4_second_region_not_duplicated:
  "DuplicateRowTo adjustHelper (sheet2 [''A2:B2'', ''C2:D2'']) 2 7 =
     Inr \<lparr>Row = Row (sheet2 []) @ [row7copy],
          MergeCells = Some [''A2:B2'', ''C2:D2'', ''A7:B7'']\<rparr>"
  by code_simp

lemma duplicateMergeCells_Row:
  "duplicateMergeCells x r r2 = Inr x' \<Longrightarrow> Row x' = Row x"
  by (auto simp: duplicateMergeCells_def split: option.splits sum.splits bool.splits)

lemma ajustSingleRowDimensions_cell:
  assumes "n < length (rC r)" "1 \<le> num"
  shows "cV (rC (ajustSingleRowDimensions r num) ! n) = cV (rC r ! n) \<and>
         cS (rC (ajustSingleRowDimensions r num) ! n) = cS (rC r ! n) \<and>
         cT (rC (ajustSingleRowDimensions r num) ! n) = cT (rC r ! n) \<and>
         cIS (rC (ajustSingleRowDimensions r num) ! n) = cIS (rC r ! n) \<and>
         (\<forall>col old. CellNameToCoordinates (cR (rC r ! n)) = Inr (col, old) \<longrightarrow>
            CellNameToCoordinates (cR (rC (ajustSingleRowDimensions r num) ! n))
              = Inr (col, num))"
proof -
  have "\<forall>col old. CellNameToCoordinates (cR (rC r ! n)) = Inr (col, old) \<longrightarrow>
            CellNameToCoordinates (cR (rC (ajustSingleRowDimensions r num) ! n))
              = Inr (col, num)"
  proof (intro allI impI)
    fix col old assume d: "CellNameToCoordinates (cR (rC r ! n)) = Inr (col, old)"
    then have "1 \<le> col" using CellNameToCoordinates_pos by blast
    from CellName_roundtrip [OF this assms(2)] obtain name where
      "CoordinatesToCellName col num = Inr name" "CellNameToCoordinates name = Inr (col, num)"
      by blast
    then show "CellNameToCoordinates (cR (rC (ajustSingleRowDimensions r num) ! n))
              = Inr (col, num)"
      using assms(1) d by (simp add: ajustSingleRowDimensions_def)
  qed
  then show ?thesis using assms(1) by (simp add: ajustSingleRowDimensions_def)
qed

text \<open>
  The copy step for any shift \<open>adj\<close>, on worksheets as values. When the shift by +1
  at \<open>row2\<close> returns \<open>xlsx1\<close> in which a record numbered \<open>row2\<close> exists or fewer
  than \<open>row2\<close> records are stored, a successful \<open>DuplicateRowTo\<close> leaves a record
  numbered \<open>row2\<close> that is the source record renumbered: as many cells, each with the
  value, style, type and inline string of the source cell and a reference that decodes
  to the source cell's column on row \<open>row2\<close>; every other record is as the shift left
  it.
\<close>

lemma DuplicateRowTo_places_copy:
  assumes ok: "DuplicateRowTo adj xlsx row row2 = Inr xlsx'"
    and row: "1 \<le> row" "row \<le> int (length (Row xlsx))"
    and row2: "1 \<le> row2" "row \<noteq> row2"
    and src: "indexOfRow (Row xlsx) row = Some i"
    and shift: "adj xlsx row2 1 = Inr xlsx1"
    and slot: "indexOfRow (Row xlsx1) row2 \<noteq> None \<or> int (length (Row xlsx1)) < row2"
  shows "\<exists>j < length (Row xlsx').
           rR (Row xlsx' ! j) = row2 \<and>
           Row xlsx' ! j = ajustSingleRowDimensions (Row xlsx ! i) row2 \<and>
           length (rC (Row xlsx' ! j)) = length (rC (Row xlsx ! i)) \<and>
           (\<forall>n < length (rC (Row xlsx ! i)).
              cV (rC (Row xlsx' ! j) ! n) = cV (rC (Row xlsx ! i) ! n) \<and>
              cS (rC (Row xlsx' ! j) ! n) = cS (rC (Row xlsx ! i) ! n) \<and>
              cT (rC (Row xlsx' ! j) ! n) = cT (rC (Row xlsx ! i) ! n) \<and>
              cIS (rC (Row xlsx' ! j) ! n) = cIS (rC (Row xlsx ! i) ! n) \<and>
              (\<forall>col old. CellNameToCoordinates (cR (rC (Row xlsx ! i) ! n)) = Inr (col, old) \<longrightarrow>
                 CellNameToCoordinates (cR (rC (Row xlsx' ! j) ! n)) = Inr (col, row2))) \<and>
           (\<forall>k < length (Row xlsx1). k \<noteq> j \<longrightarrow> Row xlsx' ! k = Row xlsx1 ! k) \<and>
           (i < length (Row xlsx1) \<and> Row xlsx1 ! i = Row xlsx ! i \<longrightarrow>
              Row xlsx' ! i = Row xlsx ! i)"
proof -
  let ?copy = "ajustSingleRowDimensions (Row xlsx ! i) row2"
  from indexOfRow_Some [OF src] have i: "i < length (Row xlsx)" "rR (Row xlsx ! i) = row"
    by simp_all
  have cells: "length (rC ?copy) = length (rC (Row xlsx ! i)) \<and>
           (\<forall>n < length (rC (Row xlsx ! i)).
              cV (rC ?copy ! n) = cV (rC (Row xlsx ! i) ! n) \<and>
              cS (rC ?copy ! n) = cS (rC (Row xlsx ! i) ! n) \<and>
              cT (rC ?copy ! n) = cT (rC (Row xlsx ! i) ! n) \<and>
              cIS (rC ?copy ! n) = cIS (rC (Row xlsx ! i) ! n) \<and>
              (\<forall>col old. CellNameToCoordinates (cR (rC (Row xlsx ! i) ! n)) = Inr (col, old) \<longrightarrow>
                 CellNameToCoordinates (cR (rC ?copy ! n)) = Inr (col, row2)))"
    using ajustSingleRowDimensions_cell [OF _ row2(1), of _ "Row xlsx ! i"]
    by (simp add: ajustSingleRowDimensions_sel)
  have num: "rR ?copy = row2" by (simp add: ajustSingleRowDimensions_sel)
  show ?thesis
  proof (cases "indexOfRow (Row xlsx1) row2")
    case None
    with slot have short: "int (length (Row xlsx1)) < row2" by simp
    let ?placed = "xlsx1\<lparr>Row := Row xlsx1 @ [?copy]\<rparr>"
    have "duplicateMergeCells ?placed row row2 = Inr xlsx'"
      using ok row row2 src shift None short by (simp add: DuplicateRowTo_def)
    then have rows: "Row xlsx' = Row xlsx1 @ [?copy]"
      using duplicateMergeCells_Row by fastforce
    let ?j = "length (Row xlsx1)"
    have a: "?j < length (Row xlsx')" using rows by simp
    have b: "Row xlsx' ! ?j = ?copy" using rows by simp
    have c: "\<forall>k < length (Row xlsx1). k \<noteq> ?j \<longrightarrow> Row xlsx' ! k = Row xlsx1 ! k"
      using rows by (simp add: nth_append)
    have d: "i < length (Row xlsx1) \<and> Row xlsx1 ! i = Row xlsx ! i \<longrightarrow>
              Row xlsx' ! i = Row xlsx ! i"
      using rows by (simp add: nth_append)
    show ?thesis
      by (rule exI [of _ ?j]) (use a b c d cells num in simp)
  next
    case (Some idx2)
    from indexOfRow_Some [OF Some] have j: "idx2 < length (Row xlsx1)"
      "rR (Row xlsx1 ! idx2) = row2" by simp_all
    let ?placed = "xlsx1\<lparr>Row := (Row xlsx1)[idx2 := ?copy]\<rparr>"
    have "duplicateMergeCells ?placed row row2 = Inr xlsx'"
      using ok row row2 src shift Some by (simp add: DuplicateRowTo_def)
    then have rows: "Row xlsx' = (Row xlsx1)[idx2 := ?copy]"
      using duplicateMergeCells_Row by fastforce
    have a: "idx2 < length (Row xlsx')" using rows j by simp
    have b: "Row xlsx' ! idx2 = ?copy" using rows j by simp
    have c: "\<forall>k < length (Row xlsx1). k \<noteq> idx2 \<longrightarrow> Row xlsx' ! k = Row xlsx1 ! k"
      using rows by simp
    have d: "i < length (Row xlsx1) \<and> Row xlsx1 ! i = Row xlsx ! i \<longrightarrow>
              Row xlsx' ! i = Row xlsx ! i"
    proof
      assume h: "i < length (Row xlsx1) \<and> Row xlsx1 ! i = Row xlsx ! i"
      then have "rR (Row xlsx1 ! i) = row" using i by simp
      then have "i \<noteq> idx2" using j row2 by auto
      then show "Row xlsx' ! i = Row xlsx ! i" using rows h by simp
    qed
    show ?thesis
      by (rule exI [of _ idx2]) (use a b c d cells num in simp)
  qed
qed

text \<open>
  With the shift of the spec the copy overwrites the vacated slot: duplicating row 1 of
  five rows to row 2 gives six rows, the copy of row 1 on row 2.
\<close>

lemma DuplicateRowTo_overwrites_slot:
  "DuplicateRowTo adjustHelper sheet5 1 2 =
     Inr \<lparr>Row = [row5 1 ''A1'' ''a'', row5 2 ''A2'' ''a'', row5 3 ''A3'' ''b'',
                  row5 4 ''A4'' ''c'', row5 5 ''B5'' ''d'', row5 6 ''C6'' ''e''],
          MergeCells = None\<rparr>"
  by code_simp

subsection \<open>Duplicating a row: storage\<close>

lemma CellNameToCoordinates_empty: "CellNameToCoordinates [] = Inl (InvalidCellName [])"
  by (simp add: CellNameToCoordinates_def)

lemma renumberC_twice:
  assumes "1 \<le> a"
  shows "renumberC b (renumberC a c) = renumberC b c"
proof (cases "CellNameToCoordinates (cR c)")
  case (Inl e)
  then show ?thesis by (simp add: renumberC_def CellNameToCoordinates_empty)
next
  case (Inr p)
  obtain col old where p: "p = (col, old)" by (cases p)
  with Inr have d: "CellNameToCoordinates (cR c) = Inr (col, old)" by simp
  then have "1 \<le> col" using CellNameToCoordinates_pos by blast
  from CellName_roundtrip [OF this assms] obtain name where
    "CoordinatesToCellName col a = Inr name" "CellNameToCoordinates name = Inr (col, a)"
    by blast
  then show ?thesis using d by (simp add: renumberC_def)
qed


lemma ajustSingleRowDimensions_renumberC:
  "ajustSingleRowDimensions r num = r\<lparr>rR := num, rC := map (renumberC num) (rC r)\<rparr>"
  by (simp add: ajustSingleRowDimensions_def renumberC_def)

lemma shiftRowsS_Cons:
  "shiftRowsS num offset (r # rs) h =
     (if shifted num offset r
      then (r\<lparr>sR := sR r + offset\<rparr> #
              fst (shiftRowsS num offset rs
                     (fst (ajustSingleRowDimensionsS h r (sR r + offset)))),
            snd (shiftRowsS num offset rs
                     (fst (ajustSingleRowDimensionsS h r (sR r + offset)))))
      else (r # fst (shiftRowsS num offset rs h), snd (shiftRowsS num offset rs h)))"
  by (simp add: shifted_def ajustSingleRowDimensionsS_def split: prod.splits)

lemma shiftRowsS_rows:
  "fst (shiftRowsS num offset rs h) =
     map (\<lambda>r. if shifted num offset r then r\<lparr>sR := sR r + offset\<rparr> else r) rs"
proof (induction rs arbitrary: h)
  case Nil
  then show ?case by simp
next
  case (Cons r rs)
  then show ?case unfolding shiftRowsS_Cons by simp
qed

lemma shiftRowsS_other:
  "q \<notin> set (addrsOf rs) \<Longrightarrow> snd (shiftRowsS num offset rs h) q = h q"
proof (induction rs arbitrary: h)
  case Nil
  then show ?case by simp
next
  case (Cons r rs)
  then have q: "sC r \<noteq> Some q" "q \<notin> set (addrsOf rs)"
    by (auto simp: addrsOf_def split: option.splits)
  have "fst (ajustSingleRowDimensionsS h r (sR r + offset)) q = h q"
    using q(1) by (auto simp: ajustSingleRowDimensionsS_def split: option.splits)
  then show ?case
    unfolding shiftRowsS_Cons using Cons.IH [OF q(2)] by simp
qed

lemma shiftRowsS_own:
  assumes "distinct (addrsOf rs)" "r \<in> set rs" "sC r = Some q"
  shows "snd (shiftRowsS num offset rs h) q =
         (if shifted num offset r then map (renumberC (sR r + offset)) (h q) else h q)"
  using assms
proof (induction rs arbitrary: h)
  case Nil
  then show ?case by simp
next
  case (Cons r0 rs)
  have d: "distinct (addrsOf rs)" using Cons.prems(1) by (simp add: addrsOf_def)
  let ?h1 = "if shifted num offset r0
             then fst (ajustSingleRowDimensionsS h r0 (sR r0 + offset)) else h"
  have step: "snd (shiftRowsS num offset (r0 # rs) h) = snd (shiftRowsS num offset rs ?h1)"
    unfolding shiftRowsS_Cons by simp
  show ?case
  proof (cases "sC r0 = Some q")
    case True
    then have notin: "q \<notin> set (addrsOf rs)"
      using Cons.prems(1) by (simp add: addrsOf_def)
    have "r \<notin> set rs"
    proof
      assume "r \<in> set rs"
      then have "q \<in> set (addrsOf rs)"
        using Cons.prems(3) by (force simp: addrsOf_def)
      with notin show False by simp
    qed
    then have r: "r = r0" using Cons.prems(2) by auto
    have "snd (shiftRowsS num offset rs ?h1) q = ?h1 q"
      by (rule shiftRowsS_other [OF notin])
    then show ?thesis
      using step r True by (simp add: ajustSingleRowDimensionsS_def)
  next
    case False
    then have r: "r \<in> set rs" using Cons.prems(2,3) by auto
    have "?h1 q = h q"
      using False by (auto simp: ajustSingleRowDimensionsS_def split: option.splits)
    then show ?thesis
      using step Cons.IH [OF d r Cons.prems(3), of ?h1] by simp
  qed
qed


lemma indexOfRowS_Some:
  "indexOfRowS rs row = Some i \<Longrightarrow> i < length rs \<and> sR (rs ! i) = row"
proof (induction rs arbitrary: i)
  case Nil
  then show ?case by simp
next
  case (Cons r rs)
  then show ?case by (auto split: if_splits)
qed

lemma set_makeRoomS: "set (makeRoomS num rs) = insert (emptyRowS num) (set rs)"
  by (induction rs) auto




lemma addr_in_addrsOf: "r \<in> set rs \<Longrightarrow> sC r = Some q \<Longrightarrow> q \<in> set (addrsOf rs)"
  by (force simp: addrsOf_def)






text \<open>
  The store and the worksheets as values agree: on a well-formed store
  \<open>DuplicateRowToS\<close> computes what \<open>DuplicateRowTo\<close> with the shift of the spec
  computes on the worksheet the store stands for; and every worksheet is that of a
  well-formed store.
\<close>

lemma indexOfRow_rowOf: "indexOfRow (map (rowOf h) rs) row = indexOfRowS rs row"
  by (induction rs) (auto simp: rowOf_def)

lemma rowOf_emptyRowS: "rowOf h (emptyRowS n) = emptyRow n"
  by (simp add: rowOf_def emptyRowS_def emptyRow_def cellsS_def)

lemma makeRoom_rowOf: "map (rowOf h) (makeRoomS n rs) = makeRoom n (map (rowOf h) rs)"
  by (induction rs) (auto simp: rowOf_emptyRowS, auto simp: rowOf_def)

lemma reachesRow_rowOf: "reachesRow (map (rowOf h) rs) n = reachesRowS rs n"
  by (simp add: reachesRow_def reachesRowS_def list_ex_iff rowOf_def)

lemma shiftRow_rowOf:
  assumes "distinct (addrsOf rs)" "r \<in> set rs"
  shows "rowOf (snd (shiftRowsS n off rs h))
           (if shifted n off r then r\<lparr>sR := sR r + off\<rparr> else r)
         = shiftRow n off (rowOf h r)"
proof (cases "sC r")
  case None
  then show ?thesis
    by (simp add: rowOf_def cellsS_def shiftRow_def shifted_def
          ajustSingleRowDimensions_renumberC)
next
  case (Some q)
  from shiftRowsS_own [OF assms Some, of n off h] show ?thesis
    using Some
    by (simp add: rowOf_def cellsS_def shiftRow_def shifted_def
          ajustSingleRowDimensions_renumberC)
qed

lemma shiftRows_rowOf:
  assumes "distinct (addrsOf rs)"
  shows "map (rowOf (snd (shiftRowsS n off rs h))) (fst (shiftRowsS n off rs h))
         = map (shiftRow n off) (map (rowOf h) rs)"
  unfolding shiftRowsS_rows map_map
  by (rule map_cong [OF refl]) (simp add: shiftRow_rowOf [OF assms] comp_def)

lemma adjustHelper_sheetOf:
  assumes "wfS st" "adjustHelperS st n off = Inr st1"
  shows "adjustHelper (sheetOf st) n off = Inr (sheetOf st1)"
proof -
  have d: "distinct (addrsOf (rowsS st))" using assms(1) by (simp add: wfS_def)
  let ?rs = "fst (shiftRowsS n off (rowsS st) (arrays st))"
  let ?h = "snd (shiftRowsS n off (rowsS st) (arrays st))"
  have st1: "st1 = st\<lparr>rowsS := (if off > 0 \<and> reachesRowS (rowsS st) n
                                    then makeRoomS n ?rs else ?rs),
                        arrays := ?h,
                        mergesS := map_option (map (shiftRef n off)) (mergesS st)\<rparr>"
    using assms(2) by (auto simp: adjustHelperS_def split: prod.splits)
  show ?thesis
    unfolding st1
    by (simp add: adjustHelper_def sheetOf_def reachesRow_rowOf makeRoom_rowOf
          shiftRows_rowOf [OF d])
qed

lemma duplicateMergeCells_rows:
  "duplicateMergeCells x row row2 =
     (case duplicateMergeCells \<lparr>Row = [], MergeCells = MergeCells x\<rparr> row row2 of
        Inl e \<Rightarrow> Inl e
      | Inr y \<Rightarrow> Inr (x\<lparr>MergeCells := MergeCells y\<rparr>))"
  by (auto simp: duplicateMergeCells_def split: option.splits sum.splits bool.splits)

lemma duplicateMergeCells_sheetOf:
  "map_sum id sheetOf (duplicateMergeCellsS st row row2)
     = duplicateMergeCells (sheetOf st) row row2"
  by (subst duplicateMergeCells_rows)
     (auto simp: duplicateMergeCellsS_def sheetOf_def split: sum.splits)


lemma adjustHelperS_store:
  assumes wf: "wfS st" and adj: "adjustHelperS st n off = Inr st1"
  shows "allocated st1 = allocated st"
    and "\<forall>r \<in> set (rowsS st1). \<forall>q. sC r = Some q \<longrightarrow> q < allocated st"
    and "\<forall>r \<in> set (rowsS st). cellsS (arrays st1) r =
           (if shifted n off r then map (renumberC (sR r + off)) (cellsS (arrays st) r)
            else cellsS (arrays st) r)"
proof -
  have d: "distinct (addrsOf (rowsS st))"
    and alloc: "\<forall>q \<in> set (addrsOf (rowsS st)). q < allocated st"
    using wf by (simp_all add: wfS_def list_all_iff)
  let ?rs = "fst (shiftRowsS n off (rowsS st) (arrays st))"
  let ?h = "snd (shiftRowsS n off (rowsS st) (arrays st))"
  have st1: "st1 = st\<lparr>rowsS := (if off > 0 \<and> reachesRowS (rowsS st) n
                                    then makeRoomS n ?rs else ?rs),
                        arrays := ?h,
                        mergesS := map_option (map (shiftRef n off)) (mergesS st)\<rparr>"
    using adj by (auto simp: adjustHelperS_def split: prod.splits)
  show "allocated st1 = allocated st" unfolding st1 by simp
  show "\<forall>r \<in> set (rowsS st1). \<forall>q. sC r = Some q \<longrightarrow> q < allocated st"
  proof (intro ballI allI impI)
    fix r q assume r: "r \<in> set (rowsS st1)" and q: "sC r = Some q"
    then have "r \<in> set ?rs"
      unfolding st1 by (auto simp: set_makeRoomS emptyRowS_def split: if_splits)
    then obtain r0 where r0: "r0 \<in> set (rowsS st)" "sC r0 = sC r"
      unfolding shiftRowsS_rows by (auto split: if_splits)
    then have "q \<in> set (addrsOf (rowsS st))" using q addr_in_addrsOf by metis
    then show "q < allocated st" using alloc by simp
  qed
  show "\<forall>r \<in> set (rowsS st). cellsS (arrays st1) r =
           (if shifted n off r then map (renumberC (sR r + off)) (cellsS (arrays st) r)
            else cellsS (arrays st) r)"
  proof
    fix r assume r: "r \<in> set (rowsS st)"
    show "cellsS (arrays st1) r =
           (if shifted n off r then map (renumberC (sR r + off)) (cellsS (arrays st) r)
            else cellsS (arrays st) r)"
    proof (cases "sC r")
      case None
      then show ?thesis by (simp add: cellsS_def)
    next
      case (Some q)
      from shiftRowsS_own [OF d r Some, of n off "arrays st"] show ?thesis
        using Some unfolding st1 by (simp add: cellsS_def)
    qed
  qed
qed

lemma adjustHelperS_total: "\<exists>st1. adjustHelperS st n off = Inr st1"
  by (simp add: adjustHelperS_def split: prod.splits)

lemma DuplicateRowToS_refines:
  assumes wf: "wfS st"
  shows "map_sum id sheetOf (DuplicateRowToS st row row2)
         = DuplicateRowTo adjustHelper (sheetOf st) row row2"
proof -
  have len: "length (Row (sheetOf st)) = length (rowsS st)" by (simp add: sheetOf_def)
  have idx: "indexOfRow (Row (sheetOf st)) row = indexOfRowS (rowsS st) row"
    by (simp add: sheetOf_def indexOfRow_rowOf)
  consider (bad) "row < 1"
    | (noop) "\<not> row < 1" "row > int (length (rowsS st)) \<or> row2 < 1 \<or> row = row2"
    | (absent) "\<not> row < 1" "\<not> (row > int (length (rowsS st)) \<or> row2 < 1 \<or> row = row2)"
               "indexOfRowS (rowsS st) row = None"
    | (found) i where "\<not> row < 1"
               "\<not> (row > int (length (rowsS st)) \<or> row2 < 1 \<or> row = row2)"
               "indexOfRowS (rowsS st) row = Some i"
    by (cases "indexOfRowS (rowsS st) row") auto
  then show ?thesis
  proof cases
    case bad
    then show ?thesis by (simp add: DuplicateRowToS_def DuplicateRowTo_def)
  next
    case noop
    then show ?thesis using len by (auto simp: DuplicateRowToS_def DuplicateRowTo_def)
  next
    case absent
    then show ?thesis using len idx by (auto simp: DuplicateRowToS_def DuplicateRowTo_def)
  next
    case found
    obtain st1 where adj: "adjustHelperS st row2 1 = Inr st1"
      using adjustHelperS_total by blast
    have adjV: "adjustHelper (sheetOf st) row2 1 = Inr (sheetOf st1)"
      by (rule adjustHelper_sheetOf [OF wf adj])
    note facts = adjustHelperS_store [OF wf adj]
    define source where "source = rowsS st ! i"
    define p where "p = allocated st1"
    define h3 where "h3 = (arrays st1)(p := map (renumberC row2) (cellsS (arrays st1) source))"
    define rowCopy where "rowCopy = source\<lparr>sC := Some p, sR := row2\<rparr>"
    from indexOfRowS_Some [OF found(3)] have i: "i < length (rowsS st)"
      and num: "sR source = row" by (simp_all add: source_def)
    have mem: "source \<in> set (rowsS st)" using i by (simp add: source_def)
    have row1: "1 \<le> row" "1 \<le> row2" using found(1,2) by auto
    have aj: "ajustSingleRowDimensionsS
                ((arrays st1)(allocated st1 := cellsS (arrays st1) (rowsS st ! i)))
                ((rowsS st ! i)\<lparr>sC := Some (allocated st1)\<rparr>) row2 = (h3, rowCopy)"
      by (simp add: ajustSingleRowDimensionsS_def h3_def rowCopy_def source_def p_def)
    have idx1: "indexOfRow (Row (sheetOf st1)) row2 = indexOfRowS (rowsS st1) row2"
      by (simp add: sheetOf_def indexOfRow_rowOf)
    have len1: "length (Row (sheetOf st1)) = length (rowsS st1)" by (simp add: sheetOf_def)
    have srcV: "Row (sheetOf st) ! i = rowOf (arrays st) source"
      using i by (simp add: sheetOf_def source_def)
    have cells: "map (renumberC row2) (cellsS (arrays st1) source)
                 = map (renumberC row2) (cellsS (arrays st) source)"
    proof -
      have "shifted row2 1 source \<Longrightarrow> 1 \<le> sR source + 1" using num row1 by simp
      then show ?thesis using facts(3) mem by (auto simp: renumberC_twice comp_def)
    qed
    have copyV: "rowOf h3 rowCopy = ajustSingleRowDimensions (Row (sheetOf st) ! i) row2"
      unfolding srcV
      by (simp add: rowOf_def rowCopy_def h3_def cellsS_def ajustSingleRowDimensions_renumberC
            cells [unfolded cellsS_def])
    have old: "map (rowOf h3) (rowsS st1) = Row (sheetOf st1)"
    proof -
      have "\<forall>r \<in> set (rowsS st1). rowOf h3 r = rowOf (arrays st1) r"
      proof
        fix r assume r: "r \<in> set (rowsS st1)"
        show "rowOf h3 r = rowOf (arrays st1) r"
        proof (cases "sC r")
          case None
          then show ?thesis by (simp add: rowOf_def cellsS_def)
        next
          case (Some q)
          then have "q < p" using facts(1,2) r by (simp add: p_def)
          then show ?thesis using Some by (simp add: rowOf_def cellsS_def h3_def)
        qed
      qed
      then show ?thesis by (simp add: sheetOf_def)
    qed
    let ?rows' = "case indexOfRowS (rowsS st1) row2 of
                    Some idx2 \<Rightarrow> (rowsS st1)[idx2 := rowCopy]
                  | None \<Rightarrow> rowsS st1 @ [rowCopy]"
    let ?st2 = "st1\<lparr>rowsS := ?rows', arrays := h3, allocated := allocated st1 + 1\<rparr>"
    let ?placed = "case indexOfRow (Row (sheetOf st1)) row2 of
                     None \<Rightarrow> Row (sheetOf st1) @
                              [ajustSingleRowDimensions (Row (sheetOf st) ! i) row2]
                   | Some idx2 \<Rightarrow> (Row (sheetOf st1))
                              [idx2 := ajustSingleRowDimensions (Row (sheetOf st) ! i) row2]"
    have rows2: "map (rowOf h3) ?rows' =
        (case indexOfRowS (rowsS st1) row2 of
           None \<Rightarrow> map (rowOf h3) (rowsS st1) @ [rowOf h3 rowCopy]
         | Some idx2 \<Rightarrow> (map (rowOf h3) (rowsS st1))[idx2 := rowOf h3 rowCopy])"
      by (simp add: map_update split: option.splits)
    have l: "sheetOf ?st2 = \<lparr>Row = map (rowOf h3) ?rows', MergeCells = mergesS st1\<rparr>"
      by (simp add: sheetOf_def)
    have r: "(sheetOf st1)\<lparr>Row := ?placed\<rparr> = \<lparr>Row = ?placed, MergeCells = mergesS st1\<rparr>"
      by (simp add: sheetOf_def)
    have l': "sheetOf ?st2 = \<lparr>Row = ?placed, MergeCells = mergesS st1\<rparr>"
      unfolding l rows2 old copyV idx1 ..
    have placed: "sheetOf ?st2 = (sheetOf st1)\<lparr>Row := ?placed\<rparr>"
      unfolding l' r ..
    show ?thesis
    proof (cases "indexOfRowS (rowsS st1) row2 = None \<and> int (length (rowsS st1)) \<ge> row2")
      case True
      then show ?thesis
        using found len idx adj adjV idx1 len1
        by (simp add: DuplicateRowToS_def DuplicateRowTo_def)
    next
      case False
      have s: "DuplicateRowToS st row row2 = duplicateMergeCellsS ?st2 row row2"
        using found adj False aj by (auto simp add: DuplicateRowToS_def)
      have v: "DuplicateRowTo adjustHelper (sheetOf st) row row2
                 = duplicateMergeCells ((sheetOf st1)\<lparr>Row := ?placed\<rparr>) row row2"
        using found len idx adjV False idx1 len1
        by (auto simp add: DuplicateRowTo_def split: option.splits)
      show ?thesis
        unfolding s v placed [symmetric] by (rule duplicateMergeCells_sheetOf)
    qed
  qed
qed


lemma every_sheet_has_store:
  "\<exists>st. wfS st \<and> sheetOf st = xlsx"
proof -
  let ?n = "length (Row xlsx)"
  let ?st = "\<lparr>rowsS = map (\<lambda>k. \<lparr>sR = rR (Row xlsx ! k), sC = Some k,
                                   sHidden = rHidden (Row xlsx ! k),
                                   sOutlineLevel = rOutlineLevel (Row xlsx ! k)\<rparr>) [0 ..< ?n],
              arrays = (\<lambda>k. rC (Row xlsx ! k)), allocated = ?n,
              mergesS = MergeCells xlsx\<rparr>"
  have a: "addrsOf (rowsS ?st) = [0 ..< ?n]"
    by (simp add: addrsOf_def comp_def)
  have "wfS ?st" unfolding wfS_def a by (simp add: list_all_iff)
  moreover have "map (rowOf (arrays ?st)) (rowsS ?st) = Row xlsx"
  proof -
    have eta: "\<And>r :: xlsxRow. \<lparr>rR = rR r, rC = rC r, rHidden = rHidden r,
                                 rOutlineLevel = rOutlineLevel r\<rparr> = r"
      by simp
    show ?thesis by (simp add: rowOf_def cellsS_def comp_def eta map_nth)
  qed
  then have "sheetOf ?st = xlsx" by (simp add: sheetOf_def)
  ultimately show ?thesis by blast
qed

end
